theory Spec2Isabelle
  imports Main "HOL-Library.AList"
begin

section \<open>Values exchanged with the external services\<close>

text \<open>
  The clients hand deserialised JSON to the service (\<^verbatim>\<open>Any\<close> in the source).  A Python
  \<^verbatim>\<open>dict\<close> is an association list of its items; \<^verbatim>\<open>None\<close> is \<open>JNull\<close>.  JSON
  numbers are restricted to integers.
\<close>

datatype json =
    JNull
  | JBool bool
  | JInt int
  | JStr string
  | JList "json list"
  | JObj "(string \<times> json) list"

type_synonym pydict = "(string \<times> json) list"

text \<open>
  The exceptions that the modelled code can raise.  \<open>Exception msg\<close> is the plain
  \<^verbatim>\<open>Exception(msg)\<close> of \<^verbatim>\<open>sync_users\<close>; \<open>DBError\<close> stands for whatever
  \<^verbatim>\<open>Session.flush\<close> raises when the database rejects a write.  \<open>ValidationError\<close> is the
  exception named in the description of \<^verbatim>\<open>create_address\<close>; no path of the code raises it.
\<close>

datatype error =
    KeyError string
  | TypeError
  | AttributeError
  | StopIteration
  | DBError
  | Exception string
  | ValidationError

text \<open>Truth value of a Python object, as \<^verbatim>\<open>not x\<close> tests it.\<close>

fun truthy :: "json \<Rightarrow> bool" where
  "truthy JNull = False"
| "truthy (JBool b) = b"
| "truthy (JInt i) = (i \<noteq> 0)"
| "truthy (JStr s) = (s \<noteq> [])"
| "truthy (JList xs) = (xs \<noteq> [])"
| "truthy (JObj kvs) = (kvs \<noteq> [])"

text \<open>\<^verbatim>\<open>x[k]\<close> with a string key: \<^verbatim>\<open>KeyError\<close> on a dict without the key,
  \<^verbatim>\<open>TypeError\<close> on every other kind of value.\<close>

fun getitem :: "json \<Rightarrow> string \<Rightarrow> error + json" where
  "getitem (JObj kvs) k = (case map_of kvs k of None \<Rightarrow> Inl (KeyError k) | Some v \<Rightarrow> Inr v)"
| "getitem _ k = Inl TypeError"

text \<open>\<^verbatim>\<open>d.get(k)\<close> on a dict: the value, or \<^verbatim>\<open>None\<close>.\<close>

definition dict_get :: "pydict \<Rightarrow> string \<Rightarrow> json" where
  "dict_get kvs k = (case map_of kvs k of None \<Rightarrow> JNull | Some v \<Rightarrow> v)"

text \<open>\<^verbatim>\<open>len(x)\<close> and the elements that \<^verbatim>\<open>for d in x\<close> / \<^verbatim>\<open>iter(x)\<close> go through:
  a string yields its characters, a dict its keys.\<close>

fun py_len :: "json \<Rightarrow> error + nat" where
  "py_len (JList xs) = Inr (length xs)"
| "py_len (JStr s) = Inr (length s)"
| "py_len (JObj kvs) = Inr (length kvs)"
| "py_len _ = Inl TypeError"

fun py_iter :: "json \<Rightarrow> error + json list" where
  "py_iter (JList xs) = Inr xs"
| "py_iter (JStr s) = Inr (map (\<lambda>c. JStr [c]) s)"
| "py_iter (JObj kvs) = Inr (map (\<lambda>kv. JStr (fst kv)) kvs)"
| "py_iter _ = Inl TypeError"

section \<open>The API clients (users/infrastructure/api\_client.py)\<close>

text \<open>
  The outcome of \<^verbatim>\<open>BaseApiClient._get\<close>: either the request raised a
  \<^verbatim>\<open>RequestException\<close> (network error, timeout, HTTP status 4xx/5xx), or it returned the
  deserialised body.
\<close>

datatype response = RequestFailed | Body json

definition get_users :: "response \<Rightarrow> json" where
  "get_users resp = (case resp of RequestFailed \<Rightarrow> JList [] | Body data \<Rightarrow> data)"

text \<open>
  \<^verbatim>\<open>get_credit_cards\<close>: \<open>resp\<close> is the outcome of the one request it makes.  Past the
  check the key \<^verbatim>\<open>data\<close> is present, so \<^verbatim>\<open>data["data"]\<close> is the value that
  \<^verbatim>\<open>data.get("data")\<close> gave.
\<close>

definition get_credit_cards :: "response \<Rightarrow> int \<Rightarrow> json" where
  "get_credit_cards resp quantity =
     (if quantity \<le> 0 then JList []
      else case resp of
             RequestFailed \<Rightarrow> JList []
           | Body data \<Rightarrow>
               (case data of
                  JObj kvs \<Rightarrow> if \<not> truthy (dict_get kvs ''data'') then JList [] else dict_get kvs ''data''
                | _ \<Rightarrow> JList []))"


section \<open>Entities and the session (users/models.py, SQLAlchemy's \<open>Session\<close>)\<close>

text \<open>
  The mapped columns of the four classes of \<^verbatim>\<open>models.py\<close>, the primary key apart.  A
  column holds whatever value the constructor was given (\<open>JNull\<close> when it was given none).
\<close>

record address =
  street :: json
  suite :: json
  city :: json
  zipcode :: json
  geo_lat :: json
  geo_lng :: json

record company =
  company_name :: json
  catch_phrase :: json
  bs :: json

record credit_card =
  card_type :: json
  number :: json
  expiration :: json
  owner :: json

record user =
  name :: json
  username :: json
  email :: json
  phone :: json
  website :: json
  address_id :: json
  company_id :: json
  credit_card_id :: json

text \<open>
  An entity is its primary key (\<open>JNull\<close> until one is assigned) with its columns.  The
  session keeps, for each class, the objects it knows in the order they were added; an
  object is referred to by its position there, which stands for the Python reference
  (\<^verbatim>\<open>address.id\<close> read after a flush is \<open>fst (addresses s ! h)\<close>).
\<close>

type_synonym 'a entity = "json \<times> 'a"

record session =
  addresses :: "address entity list"
  companies :: "company entity list"
  credit_cards :: "credit_card entity list"
  users :: "user entity list"

text \<open>
  \<^verbatim>\<open>Session.flush\<close> gives every object without a primary key the next key of its table
  (\<^verbatim>\<open>autoincrement=True\<close>): keys count up from the largest one in the table.
\<close>

definition max_id :: "json list \<Rightarrow> int" where
  "max_id ids = fold (\<lambda>j m. case j of JInt n \<Rightarrow> max n m | _ \<Rightarrow> m) ids 0"

fun assign_ids :: "int \<Rightarrow> 'a entity list \<Rightarrow> 'a entity list" where
  "assign_ids n [] = []"
| "assign_ids n (r # rs) =
     (if fst r = JNull then (JInt n, snd r) # assign_ids (n + 1) rs
      else r # assign_ids n rs)"

definition flush_table :: "'a entity list \<Rightarrow> 'a entity list" where
  "flush_table rows = assign_ids (max_id (map fst rows) + 1) rows"

definition flush :: "session \<Rightarrow> session" where
  "flush s =
     \<lparr> addresses = flush_table (addresses s),
       companies = flush_table (companies s),
       credit_cards = flush_table (credit_cards s),
       users = flush_table (users s) \<rparr>"

section \<open>The repository (app/users/infrastructure/repository.py)\<close>

text \<open>
  Every operation takes the session and returns it with what the operation raised or
  returned.  A \<^verbatim>\<open>create_*\<close> returns the position of the object it added.
\<close>

definition address_of :: "json \<Rightarrow> error + address" where
  "address_of data =
     (case getitem data ''street'' of Inl e \<Rightarrow> Inl e | Inr v_street \<Rightarrow>
      (case getitem data ''suite'' of Inl e \<Rightarrow> Inl e | Inr v_suite \<Rightarrow>
      (case getitem data ''city'' of Inl e \<Rightarrow> Inl e | Inr v_city \<Rightarrow>
      (case getitem data ''zipcode'' of Inl e \<Rightarrow> Inl e | Inr v_zipcode \<Rightarrow>
      (case getitem data ''geo'' of Inl e \<Rightarrow> Inl e | Inr g1 \<Rightarrow>
      (case getitem g1 ''lat'' of Inl e \<Rightarrow> Inl e | Inr v_lat \<Rightarrow>
      (case getitem data ''geo'' of Inl e \<Rightarrow> Inl e | Inr g2 \<Rightarrow>
      (case getitem g2 ''lng'' of Inl e \<Rightarrow> Inl e | Inr v_lng \<Rightarrow>
      Inr \<lparr> street = v_street, suite = v_suite, city = v_city, zipcode = v_zipcode,
            geo_lat = v_lat, geo_lng = v_lng \<rparr>))))))))"

definition create_address :: "session \<Rightarrow> json \<Rightarrow> (error + nat) \<times> session" where
  "create_address s data =
     (case address_of data of
        Inl e \<Rightarrow> (Inl e, s)
      | Inr a \<Rightarrow> (Inr (length (addresses s)), s\<lparr>addresses := addresses s @ [(JNull, a)]\<rparr>))"

definition company_of :: "json \<Rightarrow> error + company" where
  "company_of data =
     (case getitem data ''name'' of Inl e \<Rightarrow> Inl e | Inr v_name \<Rightarrow>
      (case getitem data ''catchPhrase'' of Inl e \<Rightarrow> Inl e | Inr v_catch_phrase \<Rightarrow>
      (case getitem data ''bs'' of Inl e \<Rightarrow> Inl e | Inr v_bs \<Rightarrow>
      Inr \<lparr> company_name = v_name, catch_phrase = v_catch_phrase, bs = v_bs \<rparr>)))"

definition create_company :: "session \<Rightarrow> json \<Rightarrow> (error + nat) \<times> session" where
  "create_company s data =
     (case company_of data of
        Inl e \<Rightarrow> (Inl e, s)
      | Inr c \<Rightarrow> (Inr (length (companies s)), s\<lparr>companies := companies s @ [(JNull, c)]\<rparr>))"

definition credit_card_of :: "json \<Rightarrow> error + credit_card" where
  "credit_card_of data =
     (case getitem data ''type'' of Inl e \<Rightarrow> Inl e | Inr v_type \<Rightarrow>
      (case getitem data ''number'' of Inl e \<Rightarrow> Inl e | Inr v_number \<Rightarrow>
      (case getitem data ''expiration'' of Inl e \<Rightarrow> Inl e | Inr v_expiration \<Rightarrow>
      (case getitem data ''owner'' of Inl e \<Rightarrow> Inl e | Inr v_owner \<Rightarrow>
      Inr \<lparr> card_type = v_type, number = v_number, expiration = v_expiration,
            owner = v_owner \<rparr>))))"

definition create_credit_card :: "session \<Rightarrow> json \<Rightarrow> (error + nat) \<times> session" where
  "create_credit_card s data =
     (case credit_card_of data of
        Inl e \<Rightarrow> (Inl e, s)
      | Inr c \<Rightarrow> (Inr (length (credit_cards s)), s\<lparr>credit_cards := credit_cards s @ [(JNull, c)]\<rparr>))"

text \<open>
  What the repository leaves to SQLAlchemy and the database:
  \<^item> \<open>db_accepts s\<close>: whether the database takes the pending rows of \<open>s\<close> at a flush
    (constraints, column types, the connection);
  \<^item> \<open>after_rollback s\<close>: the session that \<^verbatim>\<open>Session.flush\<close> leaves when the database
    rejects them (it rolls the transaction back and expunges the pending objects);
  \<^item> \<open>extra_attribute k\<close>: whether the class \<^verbatim>\<open>User\<close> has an attribute \<open>k\<close> besides its
    mapped columns and relationships (\<^verbatim>\<open>metadata\<close>, \<^verbatim>\<open>registry\<close>, ...): the declarative
    constructor takes every keyword that is an attribute of the class.
\<close>

record orm =
  db_accepts :: "session \<Rightarrow> bool"
  after_rollback :: "session \<Rightarrow> session"
  extra_attribute :: "string \<Rightarrow> bool"

text \<open>
  \<^verbatim>\<open>User(**user_data, address_id=..., company_id=..., credit_card_id=...)\<close>.  A key of
  \<^verbatim>\<open>user_data\<close> that repeats one of the three explicit keywords is a \<^verbatim>\<open>TypeError\<close> of the
  call itself; the constructor raises \<^verbatim>\<open>TypeError\<close> for a keyword that is no attribute of
  the class, and sets every other one.  Only the mapped columns reach the row.
\<close>

definition user_columns :: "string list" where
  "user_columns = [''id'', ''name'', ''username'', ''email'', ''phone'', ''website'']"

definition explicit_keywords :: "string list" where
  "explicit_keywords = [''address_id'', ''company_id'', ''credit_card_id'']"

definition takes_keyword :: "orm \<Rightarrow> string \<Rightarrow> bool" where
  "takes_keyword orm k \<longleftrightarrow>
     k \<notin> set explicit_keywords \<and> (k \<in> set user_columns \<or> extra_attribute orm k)"

definition user_of :: "pydict \<Rightarrow> json \<Rightarrow> json \<Rightarrow> json \<Rightarrow> user entity" where
  "user_of user_data a_id c_id cc_id =
     (dict_get user_data ''id'',
      \<lparr> name = dict_get user_data ''name'', username = dict_get user_data ''username'',
        email = dict_get user_data ''email'', phone = dict_get user_data ''phone'',
        website = dict_get user_data ''website'',
        address_id = a_id, company_id = c_id, credit_card_id = cc_id \<rparr>)"

text \<open>
  \<^verbatim>\<open>create_user\<close> pops three keys from the dictionary it was given before it builds the
  \<^verbatim>\<open>User\<close>.  The dictionary is the caller's object, so the model returns it as the call
  leaves it, also when the constructor raises.
\<close>

definition pop_nested :: "pydict \<Rightarrow> pydict" where
  "pop_nested user_data =
     AList.delete ''credit_card'' (AList.delete ''company'' (AList.delete ''address'' user_data))"

definition create_user ::
  "orm \<Rightarrow> session \<Rightarrow> pydict \<Rightarrow> json \<Rightarrow> json \<Rightarrow> json \<Rightarrow> (error + nat) \<times> pydict \<times> session" where
  "create_user orm s user_data a_id c_id cc_id =
     (let user_data' = pop_nested user_data in
      if list_all (takes_keyword orm) (map fst user_data')
      then (Inr (length (users s)), user_data',
            s\<lparr>users := users s @ [user_of user_data' a_id c_id cc_id]\<rparr>)
      else (Inl TypeError, user_data', s))"

text \<open>
  \<^verbatim>\<open>get_user_by_id\<close>: the first user whose primary key is the given integer.  A key that
  is not an integer (\<^verbatim>\<open>None\<close> when the record has no \<^verbatim>\<open>id\<close>) matches no row.  The
  query sees every user the session knows, flushed or not; the flush that a query of a
  session with pending objects does first is not modelled (\<^verbatim>\<open>tasks.py\<close> starts each pass
  on a new session).
\<close>

definition get_user_by_id :: "session \<Rightarrow> json \<Rightarrow> user entity option" where
  "get_user_by_id s user_id =
     (case user_id of
        JInt n \<Rightarrow> find (\<lambda>u. fst u = JInt n) (users s)
      | _ \<Rightarrow> None)"

definition get_all_users :: "session \<Rightarrow> user entity list" where
  "get_all_users s = users s"

text \<open>\<^verbatim>\<open>flush_changes\<close>.\<close>

definition flush_changes :: "orm \<Rightarrow> session \<Rightarrow> (error + unit) \<times> session" where
  "flush_changes orm s =
     (if db_accepts orm s then (Inr (), flush s) else (Inl DBError, after_rollback orm s))"


section \<open>The service (users/service.py)\<close>

text \<open>
  The calls that a pass makes on its three collaborators are recorded, oldest first, next to
  the session they act on.
\<close>

datatype call =
    Get_users
  | Get_user_by_id json
  | Get_credit_cards int
  | Create_address
  | Create_company
  | Create_credit_card
  | Flush_changes
  | Create_user

record world =
  repo :: session
  calls :: "call list"

definition called :: "call \<Rightarrow> world \<Rightarrow> world" where
  "called c w = w\<lparr>calls := calls w @ [c]\<rparr>"

text \<open>
  The first loop of \<^verbatim>\<open>sync_users\<close>: the records whose \<^verbatim>\<open>id\<close> the repository does not
  find, in the order of the fetch.  \<^verbatim>\<open>d.get\<close> raises on a record that is not a dict.
\<close>

fun find_new_users :: "json list \<Rightarrow> pydict list \<Rightarrow> world \<Rightarrow> (error + pydict list) \<times> world" where
  "find_new_users [] new_users_data w = (Inr new_users_data, w)"
| "find_new_users (d # ds) new_users_data w =
     (case d of
        JObj kvs \<Rightarrow>
          (let w' = called (Get_user_by_id (dict_get kvs ''id'')) w in
           case get_user_by_id (repo w') (dict_get kvs ''id'') of
             None \<Rightarrow> find_new_users ds (new_users_data @ [kvs]) w'
           | Some u \<Rightarrow> find_new_users ds new_users_data w')
      | _ \<Rightarrow> (Inl AttributeError, w))"

text \<open>
  The body of the second loop, for one new user \<open>d\<close> and the card \<open>faker_card_data\<close> that
  \<^verbatim>\<open>next(card_iterator)\<close> gave: the result is the position of the created user, the
  record \<open>d\<close> as the body leaves it, and the world.
\<close>

definition process_user ::
  "orm \<Rightarrow> pydict \<Rightarrow> json \<Rightarrow> world \<Rightarrow> (error + nat) \<times> pydict \<times> world" where
  "process_user orm d faker_card_data w =
     (case getitem (JObj d) ''address'' of
        Inl e \<Rightarrow> (Inl e, d, w)
      | Inr address_data \<Rightarrow>
     (case create_address (repo w) address_data of
        (Inl e, s1) \<Rightarrow> (Inl e, d, called Create_address (w\<lparr>repo := s1\<rparr>))
      | (Inr address, s1) \<Rightarrow>
     (let w1 = called Create_address (w\<lparr>repo := s1\<rparr>) in
      case getitem (JObj d) ''company'' of
        Inl e \<Rightarrow> (Inl e, d, w1)
      | Inr company_data \<Rightarrow>
     (case create_company (repo w1) company_data of
        (Inl e, s2) \<Rightarrow> (Inl e, d, called Create_company (w1\<lparr>repo := s2\<rparr>))
      | (Inr company, s2) \<Rightarrow>
     (let w2 = called Create_company (w1\<lparr>repo := s2\<rparr>) in
      case create_credit_card (repo w2) faker_card_data of
        (Inl e, s3) \<Rightarrow> (Inl e, d, called Create_credit_card (w2\<lparr>repo := s3\<rparr>))
      | (Inr credit_card, s3) \<Rightarrow>
     (let w3 = called Create_credit_card (w2\<lparr>repo := s3\<rparr>) in
      case flush_changes orm (repo w3) of
        (Inl e, s4) \<Rightarrow> (Inl e, d, called Flush_changes (w3\<lparr>repo := s4\<rparr>))
      | (Inr u, s4) \<Rightarrow>
     (let w4 = called Flush_changes (w3\<lparr>repo := s4\<rparr>) in
      case create_user orm (repo w4) d
             (fst (addresses (repo w4) ! address))
             (fst (companies (repo w4) ! company))
             (fst (credit_cards (repo w4) ! credit_card)) of
        (Inl e, d', s5) \<Rightarrow> (Inl e, d', called Create_user (w4\<lparr>repo := s5\<rparr>))
      | (Inr user, d', s5) \<Rightarrow> (Inr user, d', called Create_user (w4\<lparr>repo := s5\<rparr>)))))))))"

text \<open>
  The second loop: \<open>new_users_data\<close> against the iterator over the cards.  The third
  component of the result is \<open>new_users_data\<close> as the loop leaves its records.
\<close>

fun create_loop ::
  "orm \<Rightarrow> pydict list \<Rightarrow> json list \<Rightarrow> nat list \<Rightarrow> world
     \<Rightarrow> (error + nat list) \<times> pydict list \<times> world" where
  "create_loop orm [] card_iterator created_users w = (Inr created_users, [], w)"
| "create_loop orm (d # ds) [] created_users w = (Inl StopIteration, d # ds, w)"
| "create_loop orm (d # ds) (faker_card_data # card_iterator) created_users w =
     (case process_user orm d faker_card_data w of
        (Inl e, d', w') \<Rightarrow> (Inl e, d' # ds, w')
      | (Inr user, d', w') \<Rightarrow>
          (case create_loop orm ds card_iterator (created_users @ [user]) w' of
             (r, ds', w'') \<Rightarrow> (r, d' # ds', w'')))"

definition insufficient :: error where
  "insufficient =
     Exception ''Insufficient credit card data received from external API batch request.''"

text \<open>
  \<^verbatim>\<open>sync_users\<close>.  \<open>users_data\<close> is what \<^verbatim>\<open>user_client.get_users()\<close> returned and
  \<open>credit_card_client q\<close> what \<^verbatim>\<open>credit_card_client.get_credit_cards(q)\<close> returns.  The
  result is the raised exception or the list of created users (their positions in the
  session), then the records of the new users as the pass leaves them, then the world.
\<close>

definition sync_users ::
  "orm \<Rightarrow> json \<Rightarrow> (int \<Rightarrow> json) \<Rightarrow> world
     \<Rightarrow> (error + nat list) \<times> pydict list \<times> world" where
  "sync_users orm users_data credit_card_client w =
     (let w0 = called Get_users w in
      if \<not> truthy users_data then (Inr [], [], w0)
      else
     (case py_iter users_data of
        Inl e \<Rightarrow> (Inl e, [], w0)
      | Inr ds \<Rightarrow>
     (case find_new_users ds [] w0 of
        (Inl e, w1) \<Rightarrow> (Inl e, [], w1)
      | (Inr new_users_data, w1) \<Rightarrow>
     (let num_new_users = int (length new_users_data) in
      if num_new_users = 0 then (Inr [], new_users_data, w1)
      else
     (let all_credit_cards = credit_card_client num_new_users;
          w2 = called (Get_credit_cards num_new_users) w1 in
      case py_len all_credit_cards of
        Inl e \<Rightarrow> (Inl e, new_users_data, w2)
      | Inr n \<Rightarrow>
          if int n < num_new_users then (Inl insufficient, new_users_data, w2)
          else
     (case py_iter all_credit_cards of
        Inl e \<Rightarrow> (Inl e, new_users_data, w2)
      | Inr card_iterator \<Rightarrow> create_loop orm new_users_data card_iterator [] w2))))))"

section \<open>Test data (tests/test\_users.py)\<close>

definition mock_user_data :: pydict where
  "mock_user_data =
     [(''id'', JInt 101),
      (''name'', JStr ''Test User''),
      (''username'', JStr ''tester''),
      (''email'', JStr ''test@example.com''),
      (''phone'', JStr ''123-456-7890''),
      (''website'', JStr ''test.org''),
      (''address'', JObj
         [(''street'', JStr ''Test Street''),
          (''suite'', JStr ''Apt. 100''),
          (''city'', JStr ''Testville''),
          (''zipcode'', JStr ''12345''),
          (''geo'', JObj [(''lat'', JStr ''1.0''), (''lng'', JStr ''2.0'')])]),
      (''company'', JObj
         [(''name'', JStr ''Test Company''),
          (''catchPhrase'', JStr ''Test Phrase''),
          (''bs'', JStr ''Test BS'')])]"

definition mock_credit_card :: json where
  "mock_credit_card =
     JObj [(''type'', JStr ''Visa''),
           (''number'', JStr ''1111222233334444''),
           (''expiration'', JStr ''12/25''),
           (''owner'', JStr ''Test Owner'')]"

text \<open>A second card, to tell the cards of two users apart.\<close>

definition mock_credit_card_2 :: json where
  "mock_credit_card_2 =
     JObj [(''type'', JStr ''MasterCard''),
           (''number'', JStr ''5555666677778888''),
           (''expiration'', JStr ''01/27''),
           (''owner'', JStr ''Second Owner'')]"

text \<open>The second record of \<^verbatim>\<open>test_sync_users_insufficient_cards\<close>.\<close>

definition user_data_2 :: pydict where
  "user_data_2 =
     AList.update ''username'' (JStr ''t2'') (AList.update ''id'' (JInt 102) mock_user_data)"

text \<open>
  The credit card client of the tests returns the same list whatever the quantity; a
  second client returns two cards.
\<close>

definition mock_faker_client :: "int \<Rightarrow> json" where
  "mock_faker_client quantity = JList [mock_credit_card]"

definition two_cards_client :: "int \<Rightarrow> json" where
  "two_cards_client quantity = JList [mock_credit_card, mock_credit_card_2]"

text \<open>
  A fresh database, a database that takes every write (under a \<^verbatim>\<open>User\<close> class with the
  attributes of \<^verbatim>\<open>DeclarativeBase\<close>), and the world of a new pass.
\<close>

definition empty_session :: session where
  "empty_session = \<lparr> addresses = [], companies = [], credit_cards = [], users = [] \<rparr>"

definition accept_all :: orm where
  "accept_all =
     \<lparr> db_accepts = (\<lambda>s. True),
       after_rollback = (\<lambda>s. s),
       extra_attribute = (\<lambda>k. k \<in> set [''metadata'', ''registry'']) \<rparr>"

definition fresh_world :: world where
  "fresh_world = \<lparr> repo = empty_session, calls = [] \<rparr>"

text \<open>The world that the pass of \<^verbatim>\<open>test_sync_users_success\<close> leaves.\<close>

definition stored_world :: world where
  "stored_world =
     snd (snd (sync_users accept_all (JList (map JObj [mock_user_data])) mock_faker_client
                 fresh_world))"

section \<open>Notions used to state the properties\<close>


text \<open>What the body of a response holds under \<^verbatim>\<open>data\<close> (\<open>JNull\<close> when it holds nothing).\<close>

definition response_records :: "response \<Rightarrow> json" where
  "response_records resp =
     (case resp of
        RequestFailed \<Rightarrow> JNull
      | Body data \<Rightarrow> (case data of JObj kvs \<Rightarrow> dict_get kvs ''data'' | _ \<Rightarrow> JNull))"

text \<open>
  An address record that lacks \<^verbatim>\<open>street\<close>, \<^verbatim>\<open>suite\<close>, \<^verbatim>\<open>city\<close>, \<^verbatim>\<open>zipcode\<close> or
  \<^verbatim>\<open>geo\<close>, or whose \<^verbatim>\<open>geo\<close> record lacks \<^verbatim>\<open>lat\<close> or \<^verbatim>\<open>lng\<close>.
\<close>

definition missing_address_field :: "json \<Rightarrow> bool" where
  "missing_address_field data =
     (case data of
        JObj kvs \<Rightarrow>
          list_ex (\<lambda>k. map_of kvs k = None) [''street'', ''suite'', ''city'', ''zipcode'', ''geo'']
          \<or> (case map_of kvs ''geo'' of
                Some (JObj g) \<Rightarrow> list_ex (\<lambda>k. map_of g k = None) [''lat'', ''lng'']
              | _ \<Rightarrow> False)
      | _ \<Rightarrow> False)"

text \<open>
  The new users of a fetch: the records whose \<^verbatim>\<open>id\<close> the session does not hold, in the
  order of the fetch.  \<open>lookups\<close> are the calls of \<^verbatim>\<open>get_user_by_id\<close> that finding them
  takes.
\<close>

definition new_users :: "session \<Rightarrow> pydict list \<Rightarrow> pydict list" where
  "new_users s recs = filter (\<lambda>d. get_user_by_id s (dict_get d ''id'') = None) recs"

text \<open>The calls on the credit card client, and the calls that write to the repository.\<close>

fun is_card_call :: "call \<Rightarrow> bool" where
  "is_card_call (Get_credit_cards q) = True"
| "is_card_call _ = False"

fun is_write :: "call \<Rightarrow> bool" where
  "is_write Get_users = False"
| "is_write (Get_user_by_id i) = False"
| "is_write (Get_credit_cards q) = False"
| "is_write _ = True"

definition lookups :: "pydict list \<Rightarrow> call list" where
  "lookups recs = map (\<lambda>d. Get_user_by_id (dict_get d ''id'')) recs"

text \<open>
  \<open>holds_value d k v\<close>: \<open>v\<close> is what the record \<open>d\<close> holds under the key \<open>k\<close>, \<^verbatim>\<open>None\<close>
  for a key it lacks.
\<close>

definition holds_value :: "pydict \<Rightarrow> string \<Rightarrow> json \<Rightarrow> bool" where
  "holds_value d k v \<longleftrightarrow> (case map_of d k of None \<Rightarrow> v = JNull | Some x \<Rightarrow> v = x)"

text \<open>
  The columns of an address, a company and a credit card are the fields of the record
  they are built from.
\<close>

definition address_built :: "json \<Rightarrow> address \<Rightarrow> bool" where
  "address_built data a \<longleftrightarrow>
     (case data of
        JObj kvs \<Rightarrow>
          map_of kvs ''street'' = Some (street a) \<and> map_of kvs ''suite'' = Some (suite a) \<and>
          map_of kvs ''city'' = Some (city a) \<and> map_of kvs ''zipcode'' = Some (zipcode a) \<and>
          (case map_of kvs ''geo'' of
             Some (JObj g) \<Rightarrow>
               map_of g ''lat'' = Some (geo_lat a) \<and> map_of g ''lng'' = Some (geo_lng a)
           | _ \<Rightarrow> False)
      | _ \<Rightarrow> False)"

definition company_built :: "json \<Rightarrow> company \<Rightarrow> bool" where
  "company_built data c \<longleftrightarrow>
     (case data of
        JObj kvs \<Rightarrow>
          map_of kvs ''name'' = Some (company_name c) \<and>
          map_of kvs ''catchPhrase'' = Some (catch_phrase c) \<and>
          map_of kvs ''bs'' = Some (bs c)
      | _ \<Rightarrow> False)"

definition card_built :: "json \<Rightarrow> credit_card \<Rightarrow> bool" where
  "card_built data c \<longleftrightarrow>
     (case data of
        JObj kvs \<Rightarrow>
          map_of kvs ''type'' = Some (card_type c) \<and> map_of kvs ''number'' = Some (number c) \<and>
          map_of kvs ''expiration'' = Some (expiration c) \<and> map_of kvs ''owner'' = Some (owner c)
      | _ \<Rightarrow> False)"

text \<open>
  \<open>unique_key t i\<close>: the entity at position \<open>i\<close> of the table has an integer primary key
  that no other entity of the table has.
\<close>

definition unique_key :: "'a entity list \<Rightarrow> nat \<Rightarrow> bool" where
  "unique_key t i \<longleftrightarrow>
     i < length t \<and> (case fst (t ! i) of JInt k \<Rightarrow> True | _ \<Rightarrow> False) \<and>
     list_all (\<lambda>j. j = i \<or> fst (t ! j) \<noteq> fst (t ! i)) [0..<length t]"

text \<open>
  \<open>user_built d a_id c_id cc_id u\<close>: the columns of the user \<open>u\<close> are the entries of the
  record \<open>d\<close>, and its foreign keys are \<open>a_id\<close>, \<open>c_id\<close> and \<open>cc_id\<close>.
\<close>

definition user_built :: "pydict \<Rightarrow> json \<Rightarrow> json \<Rightarrow> json \<Rightarrow> user \<Rightarrow> bool" where
  "user_built d a_id c_id cc_id u \<longleftrightarrow>
     holds_value d ''name'' (name u) \<and> holds_value d ''username'' (username u) \<and>
     holds_value d ''email'' (email u) \<and> holds_value d ''phone'' (phone u) \<and>
     holds_value d ''website'' (website u) \<and>
     address_id u = a_id \<and> company_id u = c_id \<and> credit_card_id u = cc_id"

text \<open>
  \<open>linked s d card_data hu ha hc hcc\<close>: in the session \<open>s\<close>, the address at position \<open>ha\<close>
  and the company at \<open>hc\<close> hold the fields of the nested objects of the record \<open>d\<close>, the
  credit card at \<open>hcc\<close> holds the fields of \<open>card_data\<close>, each of the three has a primary
  key of its own, the user at \<open>hu\<close> has the entries of \<open>d\<close> as its columns and these three
  primary keys as its foreign keys, and its primary key is the \<^verbatim>\<open>id\<close> of \<open>d\<close> when \<open>d\<close>
  has one.
\<close>

definition linked :: "session \<Rightarrow> pydict \<Rightarrow> json \<Rightarrow> nat \<Rightarrow> nat \<Rightarrow> nat \<Rightarrow> nat \<Rightarrow> bool" where
  "linked s d card_data hu ha hc hcc \<longleftrightarrow>
     hu < length (users s) \<and>
     unique_key (addresses s) ha \<and> unique_key (companies s) hc \<and>
     unique_key (credit_cards s) hcc \<and>
     (case map_of d ''address'' of
        None \<Rightarrow> False
      | Some address_data \<Rightarrow> address_built address_data (snd (addresses s ! ha))) \<and>
     (case map_of d ''company'' of
        None \<Rightarrow> False
      | Some company_data \<Rightarrow> company_built company_data (snd (companies s ! hc))) \<and>
     card_built card_data (snd (credit_cards s ! hcc)) \<and>
     user_built d (fst (addresses s ! ha)) (fst (companies s ! hc)) (fst (credit_cards s ! hcc))
       (snd (users s ! hu)) \<and>
     (case map_of d ''id'' of
        None \<Rightarrow> True
      | Some v \<Rightarrow> v = JNull \<or> fst (users s ! hu) = v)"

text \<open>
  A user record and a card record that the repository takes: the nested address and
  company are dicts with their fields, the card is a dict with its fields, and the
  constructor of \<^verbatim>\<open>User\<close> takes every key of the record besides the nested objects.
\<close>

definition address_complete :: "json \<Rightarrow> bool" where
  "address_complete data \<longleftrightarrow>
     (case data of
        JObj kvs \<Rightarrow>
          list_all (\<lambda>k. map_of kvs k \<noteq> None) [''street'', ''suite'', ''city'', ''zipcode''] \<and>
          (case map_of kvs ''geo'' of
             Some (JObj g) \<Rightarrow> list_all (\<lambda>k. map_of g k \<noteq> None) [''lat'', ''lng'']
           | _ \<Rightarrow> False)
      | _ \<Rightarrow> False)"

definition company_complete :: "json \<Rightarrow> bool" where
  "company_complete data \<longleftrightarrow>
     (case data of
        JObj kvs \<Rightarrow> list_all (\<lambda>k. map_of kvs k \<noteq> None) [''name'', ''catchPhrase'', ''bs'']
      | _ \<Rightarrow> False)"

definition accepted_user :: "orm \<Rightarrow> pydict \<Rightarrow> bool" where
  "accepted_user orm d \<longleftrightarrow>
     (case map_of d ''address'' of None \<Rightarrow> False | Some data \<Rightarrow> address_complete data) \<and>
     (case map_of d ''company'' of None \<Rightarrow> False | Some data \<Rightarrow> company_complete data) \<and>
     list_all (takes_keyword orm)
       (map fst (filter (\<lambda>kv. fst kv \<notin> {''address'', ''company'', ''credit_card''}) d))"

definition accepted_card :: "json \<Rightarrow> bool" where
  "accepted_card card_data \<longleftrightarrow>
     (case card_data of
        JObj kvs \<Rightarrow>
          list_all (\<lambda>k. map_of kvs k \<noteq> None) [''type'', ''number'', ''expiration'', ''owner'']
      | _ \<Rightarrow> False)"

text \<open>The calls of \<^verbatim>\<open>create_user\<close>, and the calls that a pass adds to those of \<open>w\<close>.\<close>

fun is_create_user :: "call \<Rightarrow> bool" where
  "is_create_user Create_user = True"
| "is_create_user _ = False"

definition calls_since :: "world \<Rightarrow> world \<Rightarrow> call list" where
  "calls_since w w' = drop (length (calls w)) (calls w')"

text \<open>The record carries an integer \<^verbatim>\<open>id\<close>.\<close>

definition integer_id :: "pydict \<Rightarrow> bool" where
  "integer_id d = (case dict_get d ''id'' of JInt n \<Rightarrow> True | _ \<Rightarrow> False)"

section \<open>Properties of the credit card client\<close>




text \<open>
  C8: a body \<^verbatim>\<open>{"data": 5}\<close> is a dict whose \<^verbatim>\<open>data\<close> entry is truthy, so the check for
  an unexpected structure lets it through and the client returns the integer 5: neither an
  empty sequence nor a sequence at all.
\<close>

theorem get_credit_cards_non_list:
  "get_credit_cards (Body (JObj [(''data'', JInt 5)])) 1 = JInt 5"
  by (simp add: get_credit_cards_def dict_get_def)

text \<open>
  What the check does reject: a failed request, a body that is not a dict, and a dict whose
  \<^verbatim>\<open>data\<close> entry is missing or falsy.
\<close>

lemma get_credit_cards_rejected:
  "\<not> truthy (response_records resp) \<Longrightarrow> get_credit_cards resp quantity = JList []"
  by (simp add: get_credit_cards_def response_records_def split: response.splits json.splits)

section \<open>Properties of \<open>create_address\<close>\<close>

text \<open>
  C7, as stated, fails: on an empty record \<^verbatim>\<open>create_address\<close> raises
  \<^verbatim>\<open>KeyError('street')\<close>, not a \<^verbatim>\<open>ValidationError\<close>.
\<close>

theorem create_address_counterexample:
  "create_address empty_session (JObj []) = (Inl (KeyError ''street''), empty_session) \<and>
   fst (create_address empty_session (JObj [])) \<noteq> Inl ValidationError"
  by (simp add: create_address_def address_of_def)

text \<open>
  C7, amended: for every record that lacks one of the required address fields,
  \<^verbatim>\<open>create_address\<close> raises a \<^verbatim>\<open>KeyError\<close> naming one of the seven keys and adds no
  address to the session.
\<close>

theorem create_address_missing_field:
  assumes "missing_address_field data"
  shows "\<exists>k. k \<in> set [''street'', ''suite'', ''city'', ''zipcode'', ''geo'', ''lat'', ''lng''] \<and>
             create_address s data = (Inl (KeyError k), s)"
  using assms
  by (auto simp: missing_address_field_def create_address_def address_of_def
      split: json.splits option.splits)

text \<open>
  A record with a street and an empty \<^verbatim>\<open>geo\<close>.
\<close>

theorem create_address_missing_field_witness:
  "missing_address_field (JObj [(''street'', JStr ''Test Street''), (''geo'', JObj [])]) \<and>
   (\<exists>k. k \<in> set [''street'', ''suite'', ''city'', ''zipcode'', ''geo'', ''lat'', ''lng''] \<and>
        create_address empty_session (JObj [(''street'', JStr ''Test Street''), (''geo'', JObj [])])
          = (Inl (KeyError k), empty_session))"
proof -
  have h: "missing_address_field (JObj [(''street'', JStr ''Test Street''), (''geo'', JObj [])])"
    by (simp add: missing_address_field_def)
  from create_address_missing_field [OF h, of empty_session] h show ?thesis by blast
qed

section \<open>Lemmas about one pass of the service\<close>

subsection \<open>The first loop and the recorded calls\<close>

lemma repo_called [simp]: "repo (called c w) = repo w"
  by (simp add: called_def)

lemma calls_called [simp]: "calls (called c w) = calls w @ [c]"
  by (simp add: called_def)

text \<open>
  On a list of dicts the first loop of \<^verbatim>\<open>sync_users\<close> computes \<open>new_users\<close>, looks
  every record up once and leaves the session alone.
\<close>

lemma find_new_users_dicts:
  "find_new_users (map JObj recs) acc w =
     (Inr (acc @ new_users (repo w) recs), w\<lparr>calls := calls w @ lookups recs\<rparr>)"
proof (induction recs arbitrary: acc w)
  case Nil
  then show ?case by (simp add: new_users_def lookups_def)
next
  case (Cons d recs)
  then show ?case
    by (simp add: new_users_def lookups_def Let_def called_def split: option.splits)
qed

text \<open>
  Conversely, a directory result on which the first loop completes is a list of dicts:
  stating the properties of a pass for such results loses nothing.
\<close>

lemma find_new_users_returns_dicts:
  "find_new_users ds acc w = (Inr new, w') \<Longrightarrow> \<exists>recs. ds = map JObj recs"
proof (induction ds arbitrary: acc w)
  case Nil
  then show ?case by simp
next
  case (Cons d ds)
  from Cons.prems obtain kvs where d: "d = JObj kvs"
    by (cases d) simp_all
  from Cons.prems d obtain acc' w1 where "find_new_users ds acc' w1 = (Inr new, w')"
    by (auto simp: Let_def split: option.splits)
  from Cons.IH[OF this] obtain recs where "ds = map JObj recs" by blast
  with d have "d # ds = map JObj (kvs # recs)" by simp
  then show ?case by (rule exI)
qed

lemma directory_result_shape:
  assumes "truthy users_data" and "py_iter users_data = Inr ds"
    and "find_new_users ds acc w = (Inr new, w')"
  shows "\<exists>recs. users_data = JList (map JObj recs)"
proof -
  from find_new_users_returns_dicts[OF assms(3)] obtain recs where recs: "ds = map JObj recs"
    by blast
  show ?thesis
  proof (cases users_data)
    case (JList xs)
    with assms(2) recs have "users_data = JList (map JObj recs)" by simp
    then show ?thesis by (rule exI)
  next
    case (JStr s)
    with assms(1,2) recs show ?thesis by (cases s; cases recs) simp_all
  next
    case (JObj kvs)
    with assms(1,2) recs show ?thesis by (cases kvs; cases recs) simp_all
  qed (use assms(2) in simp_all)
qed

lemma filter_lookups [simp]:
  "filter is_card_call (lookups recs) = []" "filter is_write (lookups recs) = []"
  by (induction recs) (simp_all add: lookups_def)




lemma new_users_Nil [simp]: "new_users s [] = []"
  by (simp add: new_users_def)

lemma lookups_Nil [simp]: "lookups [] = []"
  by (simp add: lookups_def)

lemma py_iter_len: "py_iter x = Inr xs \<Longrightarrow> py_len x = Inr (length xs)"
  by (cases x) auto

text \<open>
  \<^verbatim>\<open>sync_users\<close> on a list of dicts, without and with new users.
\<close>

lemma sync_users_no_new:
  assumes "new_users (repo w) recs = []"
  shows "sync_users orm (JList (map JObj recs)) credit_card_client w =
           (Inr [], [], w\<lparr>calls := calls w @ Get_users # lookups recs\<rparr>)"
  using assms
  by (cases "recs = []") (simp_all add: sync_users_def Let_def find_new_users_dicts called_def)

lemma sync_users_some_new:
  assumes "new_users (repo w) recs \<noteq> []"
  shows "sync_users orm (JList (map JObj recs)) credit_card_client w =
    (let new_users_data = new_users (repo w) recs;
         num_new_users = int (length new_users_data);
         w2 = w\<lparr>calls := calls w @ Get_users # lookups recs @ [Get_credit_cards num_new_users]\<rparr>
     in case py_len (credit_card_client num_new_users) of
          Inl e \<Rightarrow> (Inl e, new_users_data, w2)
        | Inr n \<Rightarrow>
            if n < length new_users_data then (Inl insufficient, new_users_data, w2)
            else (case py_iter (credit_card_client num_new_users) of
                    Inl e \<Rightarrow> (Inl e, new_users_data, w2)
                  | Inr card_iterator \<Rightarrow> create_loop orm new_users_data card_iterator [] w2))"
proof -
  from assms have "recs \<noteq> []" by auto
  with assms show ?thesis
    by (simp add: sync_users_def Let_def find_new_users_dicts called_def split: sum.splits)
qed

subsection \<open>How the tables evolve\<close>

text \<open>
  Helpers for the proofs: \<open>kept t t'\<close> says that \<open>t'\<close> still has every entity of \<open>t\<close> at
  its position, with its columns, with its primary key if it had one, and with a key of
  its own if it had one of its own.
\<close>

definition kept :: "'a entity list \<Rightarrow> 'a entity list \<Rightarrow> bool" where
  "kept t t' \<longleftrightarrow>
     length t \<le> length t' \<and>
     (\<forall>i<length t. snd (t' ! i) = snd (t ! i) \<and> (fst (t ! i) \<noteq> JNull \<longrightarrow> fst (t' ! i) = fst (t ! i)))"

definition keys_kept :: "'a entity list \<Rightarrow> 'a entity list \<Rightarrow> bool" where
  "keys_kept t t' \<longleftrightarrow> kept t t' \<and> (\<forall>i. unique_key t i \<longrightarrow> unique_key t' i)"

definition session_kept :: "session \<Rightarrow> session \<Rightarrow> bool" where
  "session_kept s s' \<longleftrightarrow>
     keys_kept (addresses s) (addresses s') \<and> keys_kept (companies s) (companies s') \<and>
     keys_kept (credit_cards s) (credit_cards s') \<and> kept (users s) (users s')"

definition nulls_before :: "'a entity list \<Rightarrow> nat \<Rightarrow> nat" where
  "nulls_before t i = length (filter (\<lambda>r. fst r = JNull) (take i t))"

lemma unique_key_iff:
  "unique_key t i \<longleftrightarrow>
     i < length t \<and> (\<exists>k. fst (t ! i) = JInt k) \<and> (\<forall>j<length t. j \<noteq> i \<longrightarrow> fst (t ! j) \<noteq> fst (t ! i))"
  by (auto simp: unique_key_def list_all_iff split: json.splits)

lemma length_assign_ids [simp]: "length (assign_ids n t) = length t"
  by (induction t arbitrary: n) auto

lemma snd_assign_ids: "i < length t \<Longrightarrow> snd (assign_ids n t ! i) = snd (t ! i)"
proof (induction t arbitrary: n i)
  case Nil
  then show ?case by simp
next
  case (Cons r t)
  then show ?case by (cases i) auto
qed

lemma fst_assign_ids:
  "i < length t \<Longrightarrow>
     fst (assign_ids n t ! i)
       = (if fst (t ! i) = JNull then JInt (n + int (nulls_before t i)) else fst (t ! i))"
proof (induction t arbitrary: n i)
  case Nil
  then show ?case by simp
next
  case (Cons r t)
  show ?case
  proof (cases i)
    case 0
    then show ?thesis by (simp add: nulls_before_def)
  next
    case (Suc j)
    with Cons.prems have j: "j < length t" by simp
    from Cons.IH[OF j] Suc show ?thesis
      by (simp add: nulls_before_def)
  qed
qed

lemma max_id_fold:
  "a \<le> fold (\<lambda>j m. case j of JInt n \<Rightarrow> max n m | _ \<Rightarrow> m) ids a \<and>
   (JInt k \<in> set ids \<longrightarrow> k \<le> fold (\<lambda>j m. case j of JInt n \<Rightarrow> max n m | _ \<Rightarrow> m) ids a)"
proof (induction ids arbitrary: a)
  case Nil
  then show ?case by simp
next
  case (Cons x ids)
  let ?f = "\<lambda>j m. case j of JInt n \<Rightarrow> max n m | _ \<Rightarrow> (m::int)"
  have step: "a \<le> ?f x a" by (cases x) simp_all
  from Cons[of "?f x a"] have up: "?f x a \<le> fold ?f ids (?f x a)"
    and mem: "JInt k \<in> set ids \<longrightarrow> k \<le> fold ?f ids (?f x a)"
    by simp_all
  have "k \<le> fold ?f ids (?f x a)" if "x = JInt k"
  proof -
    from that have "k \<le> ?f x a" by simp
    with up show ?thesis by linarith
  qed
  with step up mem show ?case by auto
qed

lemma max_id_ge: "JInt k \<in> set ids \<Longrightarrow> k \<le> max_id ids"
  unfolding max_id_def using max_id_fold[of 0 ids k] by blast

lemma length_flush_table [simp]: "length (flush_table t) = length t"
  by (simp add: flush_table_def)

lemma snd_flush_table: "i < length t \<Longrightarrow> snd (flush_table t ! i) = snd (t ! i)"
  by (simp add: flush_table_def snd_assign_ids)

lemma fst_flush_table:
  "i < length t \<Longrightarrow>
     fst (flush_table t ! i)
       = (if fst (t ! i) = JNull then JInt (max_id (map fst t) + 1 + int (nulls_before t i))
          else fst (t ! i))"
  by (simp add: flush_table_def fst_assign_ids)

lemma nulls_before_mono: "a \<le> b \<Longrightarrow> nulls_before t a \<le> nulls_before t b"
proof -
  assume "a \<le> b"
  then have "take a t = take a (take b t)" by (simp add: min_def)
  then have "filter (\<lambda>r. fst r = JNull) (take b t)
     = filter (\<lambda>r. fst r = JNull) (take a t) @ filter (\<lambda>r. fst r = JNull) (drop a (take b t))"
    by (metis append_take_drop_id filter_append)
  then show ?thesis by (simp add: nulls_before_def)
qed

lemma nulls_before_Suc:
  "j < length t \<Longrightarrow> fst (t ! j) = JNull \<Longrightarrow> nulls_before t (Suc j) = Suc (nulls_before t j)"
  by (simp add: nulls_before_def take_Suc_conv_app_nth)

lemma nulls_before_less:
  assumes "j < i" and "j < length t" and "fst (t ! j) = JNull"
  shows "nulls_before t j < nulls_before t i"
proof -
  from assms(1) have "nulls_before t (Suc j) \<le> nulls_before t i"
    by (intro nulls_before_mono) simp
  with nulls_before_Suc[OF assms(2,3)] show ?thesis by simp
qed

text \<open>A flush gives a pending entity a key above every key of the table.\<close>

lemma flushed_key_above:
  assumes "j < length t" and "fst (t ! j) = JNull" and "JInt k \<in> set (map fst t)"
  shows "fst (flush_table t ! j) \<noteq> JInt k"
proof -
  from max_id_ge[OF assms(3)] have "k < max_id (map fst t) + 1 + int (nulls_before t j)"
    by simp
  with assms(1,2) show ?thesis by (simp add: fst_flush_table)
qed

lemma unique_key_flush:
  assumes "unique_key t i"
  shows "unique_key (flush_table t) i"
proof -
  from assms obtain k where i: "i < length t" and k: "fst (t ! i) = JInt k"
    and others: "\<And>j. j < length t \<Longrightarrow> j \<noteq> i \<Longrightarrow> fst (t ! j) \<noteq> JInt k"
    unfolding unique_key_iff by auto
  from i k have k': "fst (flush_table t ! i) = JInt k"
    by (simp add: fst_flush_table)
  from i k have mem: "JInt k \<in> set (map fst t)"
    by (metis length_map nth_map nth_mem)
  have "fst (flush_table t ! j) \<noteq> JInt k" if j: "j < length t" "j \<noteq> i" for j
  proof (cases "fst (t ! j) = JNull")
    case True
    from flushed_key_above[OF j(1) True mem] show ?thesis .
  next
    case False
    with j others[OF j] show ?thesis by (simp add: fst_flush_table)
  qed
  with i k' show ?thesis unfolding unique_key_iff by simp
qed

lemma unique_key_append:
  assumes "unique_key t i"
  shows "unique_key (t @ [(JNull, x)]) i"
  using assms unfolding unique_key_iff
  by (auto simp: nth_append less_Suc_eq)

lemma unique_key_new: "unique_key (flush_table (t @ [(JNull, x)])) (length t)"
proof -
  let ?T = "t @ [(JNull, x)]"
  let ?k = "max_id (map fst ?T) + 1 + int (nulls_before ?T (length t))"
  have key: "fst (flush_table ?T ! length t) = JInt ?k"
    by (simp add: fst_flush_table)
  have "fst (flush_table ?T ! j) \<noteq> JInt ?k" if j: "j < length ?T" "j \<noteq> length t" for j
  proof -
    from j have jt: "j < length t" by simp
    show ?thesis
    proof (cases "fst (?T ! j) = JNull")
      case True
      from nulls_before_less[OF jt j(1) True] j(1) True show ?thesis
        by (simp add: fst_flush_table)
    next
      case False
      show ?thesis
      proof (cases "fst (?T ! j)")
        case (JInt m)
        with j(1) have "JInt m \<in> set (map fst ?T)"
          by (metis length_map nth_map nth_mem)
        from max_id_ge[OF this] have "m < ?k" by simp
        with JInt j(1) show ?thesis by (simp add: fst_flush_table)
      qed (use False j(1) in \<open>simp_all add: fst_flush_table\<close>)
    qed
  qed
  with key show ?thesis unfolding unique_key_iff by simp
qed

lemma kept_refl [simp]: "kept t t"
  by (simp add: kept_def)

lemma kept_trans: "kept t t' \<Longrightarrow> kept t' t'' \<Longrightarrow> kept t t''"
  unfolding kept_def by auto

lemma kept_append [simp]: "kept t (t @ xs)"
  by (simp add: kept_def nth_append)

lemma kept_flush_table [simp]: "kept t (flush_table t)"
  by (simp add: kept_def snd_flush_table fst_flush_table)

lemma kept_flush_append: "kept t (flush_table (t @ xs))"
  by (rule kept_trans[OF kept_append kept_flush_table])

lemma kept_flush_append2: "kept t (flush_table t @ xs)"
  by (rule kept_trans[OF kept_flush_table kept_append])

lemma keys_kept_refl [simp]: "keys_kept t t"
  by (simp add: keys_kept_def)

lemma keys_kept_trans: "keys_kept t t' \<Longrightarrow> keys_kept t' t'' \<Longrightarrow> keys_kept t t''"
  unfolding keys_kept_def by (blast intro: kept_trans)

lemma keys_kept_flush_append: "keys_kept t (flush_table (t @ [(JNull, x)]))"
  unfolding keys_kept_def
  by (blast intro: kept_flush_append unique_key_flush unique_key_append)

lemma session_kept_refl [simp]: "session_kept s s"
  by (simp add: session_kept_def)

lemma session_kept_trans: "session_kept s s' \<Longrightarrow> session_kept s' s'' \<Longrightarrow> session_kept s s''"
  unfolding session_kept_def by (blast intro: kept_trans keys_kept_trans)

lemma linked_kept:
  assumes "linked s d card_data hu ha hc hcc" and "session_kept s s'"
  shows "linked s' d card_data hu ha hc hcc"
proof -
  from assms(2) have k: "kept (addresses s) (addresses s')" "kept (companies s) (companies s')"
    "kept (credit_cards s) (credit_cards s')" "kept (users s) (users s')"
    and uk: "\<And>i. unique_key (addresses s) i \<Longrightarrow> unique_key (addresses s') i"
      "\<And>i. unique_key (companies s) i \<Longrightarrow> unique_key (companies s') i"
      "\<And>i. unique_key (credit_cards s) i \<Longrightarrow> unique_key (credit_cards s') i"
    by (simp_all add: session_kept_def keys_kept_def)
  from assms(1) have u0: "unique_key (addresses s) ha" "unique_key (companies s) hc"
    "unique_key (credit_cards s) hcc" and hu: "hu < length (users s)"
    by (simp_all add: linked_def)
  from u0 have b: "ha < length (addresses s)" "hc < length (companies s)"
    "hcc < length (credit_cards s)"
    and nn: "fst (addresses s ! ha) \<noteq> JNull" "fst (companies s ! hc) \<noteq> JNull"
      "fst (credit_cards s ! hcc) \<noteq> JNull"
    by (auto simp: unique_key_iff)
  from k b hu nn have
    a: "snd (addresses s' ! ha) = snd (addresses s ! ha)"
       "fst (addresses s' ! ha) = fst (addresses s ! ha)"
    and c: "snd (companies s' ! hc) = snd (companies s ! hc)"
       "fst (companies s' ! hc) = fst (companies s ! hc)"
    and cc: "snd (credit_cards s' ! hcc) = snd (credit_cards s ! hcc)"
       "fst (credit_cards s' ! hcc) = fst (credit_cards s ! hcc)"
    and u: "snd (users s' ! hu) = snd (users s ! hu)"
       "fst (users s ! hu) \<noteq> JNull \<longrightarrow> fst (users s' ! hu) = fst (users s ! hu)"
       "hu < length (users s')"
    by (auto simp: kept_def)
  from assms(1) have idk: "case map_of d ''id'' of None \<Rightarrow> True
                           | Some v \<Rightarrow> v = JNull \<or> fst (users s ! hu) = v"
    by (simp add: linked_def)
  from idk u(2) have idk': "case map_of d ''id'' of None \<Rightarrow> True
                           | Some v \<Rightarrow> v = JNull \<or> fst (users s' ! hu) = v"
    by (auto split: option.splits)
  from assms(1) uk u0 a c cc u idk' show ?thesis
    unfolding linked_def by (simp split: option.splits)
qed

lemma found_iff:
  "get_user_by_id s (JInt n) \<noteq> None \<longleftrightarrow> (\<exists>i<length (users s). fst (users s ! i) = JInt n)"
proof
  assume "get_user_by_id s (JInt n) \<noteq> None"
  then obtain u where "u \<in> set (users s)" "fst u = JInt n"
    by (auto simp: get_user_by_id_def find_None_iff)
  then show "\<exists>i<length (users s). fst (users s ! i) = JInt n"
    by (auto simp: in_set_conv_nth)
next
  assume "\<exists>i<length (users s). fst (users s ! i) = JInt n"
  then obtain i where "i < length (users s)" "fst (users s ! i) = JInt n"
    by blast
  then have "\<exists>u\<in>set (users s). fst u = JInt n"
    using nth_mem by blast
  then have "find (\<lambda>u. fst u = JInt n) (users s) \<noteq> None"
    unfolding find_None_iff by blast
  then show "get_user_by_id s (JInt n) \<noteq> None"
    by (simp add: get_user_by_id_def)
qed

lemma found_kept:
  assumes "session_kept s s'" and "get_user_by_id s (JInt n) \<noteq> None"
  shows "get_user_by_id s' (JInt n) \<noteq> None"
proof -
  from assms(2) obtain i where i: "i < length (users s)" "fst (users s ! i) = JInt n"
    unfolding found_iff by blast
  from assms(1) have "kept (users s) (users s')" by (simp add: session_kept_def)
  with i have "i < length (users s')" "fst (users s' ! i) = JInt n"
    by (auto simp: kept_def)
  then show ?thesis unfolding found_iff by blast
qed

subsection \<open>A pass that returns\<close>

lemma getitem_dict: "getitem (JObj d) k = Inr v \<Longrightarrow> map_of d k = Some v"
  by (simp split: option.splits)

lemma address_of_built: "address_of data = Inr a \<Longrightarrow> address_built data a"
  by (cases data)
    (auto simp: address_of_def address_built_def split: sum.splits option.splits json.splits)

lemma company_of_built: "company_of data = Inr c \<Longrightarrow> company_built data c"
  by (cases data) (auto simp: company_of_def company_built_def split: sum.splits option.splits)

lemma credit_card_of_built: "credit_card_of data = Inr c \<Longrightarrow> card_built data c"
  by (cases data) (auto simp: credit_card_of_def card_built_def split: sum.splits option.splits)

lemma delete_thrice:
  "AList.delete k3 (AList.delete k2 (AList.delete k1 d)) = filter (\<lambda>kv. fst kv \<notin> {k1, k2, k3}) d"
  by (induction d) auto

lemma filter_pop_nested:
  "pop_nested d = filter (\<lambda>kv. fst kv \<notin> {''address'', ''company'', ''credit_card''}) d"
  unfolding pop_nested_def by (rule delete_thrice)

lemma pop_nested_value:
  "k \<noteq> ''address'' \<Longrightarrow> k \<noteq> ''company'' \<Longrightarrow> k \<noteq> ''credit_card'' \<Longrightarrow>
     holds_value d k (dict_get (pop_nested d) k)"
  by (simp add: holds_value_def dict_get_def pop_nested_def AList.delete_conv' split: option.splits)

lemma process_user_success:
  assumes "process_user ok d card_data w = (Inr h, d', w')"
  shows "h = length (users (repo w)) \<and> d' = pop_nested d \<and>
         length (users (repo w')) = Suc (length (users (repo w))) \<and>
         length (addresses (repo w')) = Suc (length (addresses (repo w))) \<and>
         length (companies (repo w')) = Suc (length (companies (repo w))) \<and>
         length (credit_cards (repo w')) = Suc (length (credit_cards (repo w))) \<and>
         session_kept (repo w) (repo w') \<and>
         linked (repo w') d card_data (length (users (repo w))) (length (addresses (repo w)))
           (length (companies (repo w))) (length (credit_cards (repo w)))"
proof -
  let ?s = "repo w"
  from assms obtain address_data a company_data c cc where
    ga: "getitem (JObj d) ''address'' = Inr address_data" and a: "address_of address_data = Inr a"
    and gc: "getitem (JObj d) ''company'' = Inr company_data" and c: "company_of company_data = Inr c"
    and cc: "credit_card_of card_data = Inr cc"
    and rest: "(let s3 = flush (?s\<lparr>addresses := addresses ?s @ [(JNull, a)],
                                   companies := companies ?s @ [(JNull, c)],
                                   credit_cards := credit_cards ?s @ [(JNull, cc)]\<rparr>)
               in h = length (users ?s) \<and> d' = pop_nested d \<and>
                  repo w' = s3\<lparr>users := users s3 @
                     [user_of (pop_nested d) (fst (addresses s3 ! length (addresses ?s)))
                        (fst (companies s3 ! length (companies ?s)))
                        (fst (credit_cards s3 ! length (credit_cards ?s)))]\<rparr>)"
    unfolding process_user_def create_address_def create_company_def create_credit_card_def
      flush_changes_def create_user_def
    by (auto simp: Let_def flush_def split: sum.splits prod.splits if_splits)
  define ta where "ta = flush_table (addresses ?s @ [(JNull, a)])"
  define tc where "tc = flush_table (companies ?s @ [(JNull, c)])"
  define tcc where "tcc = flush_table (credit_cards ?s @ [(JNull, cc)])"
  define u where "u = user_of (pop_nested d) (fst (ta ! length (addresses ?s)))
                        (fst (tc ! length (companies ?s))) (fst (tcc ! length (credit_cards ?s)))"
  from rest have hd: "h = length (users ?s)" "d' = pop_nested d"
    and tabs: "addresses (repo w') = ta" "companies (repo w') = tc" "credit_cards (repo w') = tcc"
      "users (repo w') = flush_table (users ?s) @ [u]"
    by (simp_all add: Let_def flush_def ta_def tc_def tcc_def u_def)
  have la: "snd (ta ! length (addresses ?s)) = a" "unique_key ta (length (addresses ?s))"
    by (simp_all add: ta_def snd_flush_table unique_key_new)
  have lc: "snd (tc ! length (companies ?s)) = c" "unique_key tc (length (companies ?s))"
    by (simp_all add: tc_def snd_flush_table unique_key_new)
  have lcc: "snd (tcc ! length (credit_cards ?s)) = cc" "unique_key tcc (length (credit_cards ?s))"
    by (simp_all add: tcc_def snd_flush_table unique_key_new)
  have lu: "(flush_table (users ?s) @ [u]) ! length (users ?s) = u"
    by (simp add: nth_append)
  have lens: "length ta = Suc (length (addresses ?s))" "length tc = Suc (length (companies ?s))"
    "length tcc = Suc (length (credit_cards ?s))"
    by (simp_all add: ta_def tc_def tcc_def)
  have k: "session_kept ?s (repo w')"
    unfolding session_kept_def tabs
    by (simp add: ta_def tc_def tcc_def keys_kept_flush_append kept_flush_append2)
  have built: "address_built address_data a" "company_built company_data c" "card_built card_data cc"
    using a c cc by (simp_all add: address_of_built company_of_built credit_card_of_built)
  have nested: "map_of d ''address'' = Some address_data" "map_of d ''company'' = Some company_data"
    using ga gc by (simp_all add: getitem_dict)
  have cols: "user_built d (fst (ta ! length (addresses ?s))) (fst (tc ! length (companies ?s)))
                (fst (tcc ! length (credit_cards ?s))) (snd u)"
    and idc: "holds_value d ''id'' (fst u)"
    by (simp_all add: user_built_def u_def user_of_def pop_nested_value)
  from idc have idu: "case map_of d ''id'' of None \<Rightarrow> True | Some v \<Rightarrow> v = JNull \<or> fst u = v"
    by (simp add: holds_value_def split: option.splits)
  have l: "linked (repo w') d card_data (length (users ?s)) (length (addresses ?s))
             (length (companies ?s)) (length (credit_cards ?s))"
    unfolding linked_def tabs lu
    using la lc lcc built nested cols idu by simp
  from hd tabs lens k l show ?thesis by simp
qed

lemma create_loop_success:
  assumes "create_loop ok ds cs created w = (Inr out, ds', w')"
  shows "length ds \<le> length cs \<and>
         out = created @ [length (users (repo w)) ..< length (users (repo w)) + length ds] \<and>
         ds' = map pop_nested ds \<and>
         session_kept (repo w) (repo w') \<and>
         length (users (repo w')) = length (users (repo w)) + length ds \<and>
         length (addresses (repo w')) = length (addresses (repo w)) + length ds \<and>
         length (companies (repo w')) = length (companies (repo w)) + length ds \<and>
         length (credit_cards (repo w')) = length (credit_cards (repo w)) + length ds \<and>
         (\<forall>i<length ds.
            linked (repo w') (ds ! i) (cs ! i) (length (users (repo w)) + i)
              (length (addresses (repo w)) + i) (length (companies (repo w)) + i)
              (length (credit_cards (repo w)) + i))"
  using assms
proof (induction ok ds cs created w arbitrary: out ds' w' rule: create_loop.induct)
  case (1 orm card_iterator created_users w)
  then show ?case by simp
next
  case (2 orm d ds created_users w)
  then show ?case by simp
next
  case (3 orm d ds faker_card_data card_iterator created_users w)
  obtain r1 d1 w1 where body: "process_user orm d faker_card_data w = (r1, d1, w1)"
    by (cases "process_user orm d faker_card_data w") auto
  from "3.prems" body obtain user where r1: "r1 = Inr user"
    by (cases r1) auto
  obtain r2 ds2 w2 where
    rest: "create_loop orm ds card_iterator (created_users @ [user]) w1 = (r2, ds2, w2)"
    by (cases "create_loop orm ds card_iterator (created_users @ [user]) w1") auto
  from "3.prems" body r1 rest have eqs: "r2 = Inr out" "ds' = d1 # ds2" "w' = w2"
    by simp_all
  note step = process_user_success[OF body[unfolded r1]]
  note ih = "3.IH"[OF body[symmetric] _ _ rest[unfolded eqs(1)], unfolded r1, OF refl refl]
  from step have user: "user = length (users (repo w))" and d1: "d1 = pop_nested d"
    and k1: "session_kept (repo w) (repo w1)"
    and l1: "linked (repo w1) d faker_card_data (length (users (repo w)))
               (length (addresses (repo w))) (length (companies (repo w)))
               (length (credit_cards (repo w)))"
    and len1: "length (users (repo w1)) = Suc (length (users (repo w)))"
      "length (addresses (repo w1)) = Suc (length (addresses (repo w)))"
      "length (companies (repo w1)) = Suc (length (companies (repo w)))"
      "length (credit_cards (repo w1)) = Suc (length (credit_cards (repo w)))"
    by simp_all
  from ih have k2: "session_kept (repo w1) (repo w2)"
    and out: "out = (created_users @ [user]) @
                [length (users (repo w1)) ..< length (users (repo w1)) + length ds]"
    and ds2: "ds2 = map pop_nested ds" and le: "length ds \<le> length card_iterator"
    and len2: "length (users (repo w2)) = length (users (repo w1)) + length ds"
      "length (addresses (repo w2)) = length (addresses (repo w1)) + length ds"
      "length (companies (repo w2)) = length (companies (repo w1)) + length ds"
      "length (credit_cards (repo w2)) = length (credit_cards (repo w1)) + length ds"
    and l2: "\<And>i. i < length ds \<Longrightarrow>
               linked (repo w2) (ds ! i) (card_iterator ! i) (length (users (repo w1)) + i)
                 (length (addresses (repo w1)) + i) (length (companies (repo w1)) + i)
                 (length (credit_cards (repo w1)) + i)"
    by simp_all
  have links: "linked (repo w2) ((d # ds) ! i) ((faker_card_data # card_iterator) ! i)
                 (length (users (repo w)) + i) (length (addresses (repo w)) + i)
                 (length (companies (repo w)) + i) (length (credit_cards (repo w)) + i)"
    if "i < length (d # ds)" for i
  proof (cases i)
    case 0
    with linked_kept[OF l1 k2] show ?thesis by simp
  next
    case (Suc j)
    with that l2[of j] len1 show ?thesis by simp
  qed
  have "out = created_users @ [length (users (repo w)) ..< length (users (repo w)) + length (d # ds)]"
    unfolding out user len1 by (simp add: upt_conv_Cons del: upt_Suc)
  with links le ds2 d1 eqs len1 len2 session_kept_trans[OF k1 k2] show ?case
    by simp
qed

lemma sync_users_success:
  assumes "sync_users orm (JList (map JObj recs)) credit_card_client w = (Inr created, recs', w')"
    and "new_users (repo w) recs \<noteq> []"
  shows "\<exists>cards. py_iter (credit_card_client (int (length (new_users (repo w) recs)))) = Inr cards \<and>
           create_loop orm (new_users (repo w) recs) cards []
             (w\<lparr>calls := calls w @ Get_users # lookups recs @
                          [Get_credit_cards (int (length (new_users (repo w) recs)))]\<rparr>)
           = (Inr created, recs', w')"
  using assms(1) unfolding sync_users_some_new[OF assms(2)] Let_def
  by (auto split: sum.splits if_splits)

lemma sync_users_success_facts:
  assumes "fst (sync_users orm (JList (map JObj recs)) credit_card_client w) = Inr created"
  shows "session_kept (repo w)
           (repo (snd (snd (sync_users orm (JList (map JObj recs)) credit_card_client w))))
         \<and> (\<forall>i<length (new_users (repo w) recs). \<exists>cd ha hc hcc.
               linked (repo (snd (snd (sync_users orm (JList (map JObj recs))
                                         credit_card_client w))))
                 (new_users (repo w) recs ! i) cd (length (users (repo w)) + i) ha hc hcc)"
proof (cases "new_users (repo w) recs = []")
  case True
  then show ?thesis by (simp add: sync_users_no_new)
next
  case False
  let ?R = "sync_users orm (JList (map JObj recs)) credit_card_client w"
  from assms(1) have "?R = (Inr created, fst (snd ?R), snd (snd ?R))"
    by (metis prod.collapse)
  from sync_users_success[OF this False] obtain cards where
    loop: "create_loop orm (new_users (repo w) recs) cards []
             (w\<lparr>calls := calls w @ Get_users # lookups recs @
                          [Get_credit_cards (int (length (new_users (repo w) recs)))]\<rparr>)
           = (Inr created, fst (snd ?R), snd (snd ?R))"
    by blast
  from create_loop_success[OF loop] have
    "session_kept (repo w) (repo (snd (snd ?R)))"
    and "\<And>i. i < length (new_users (repo w) recs) \<Longrightarrow>
           linked (repo (snd (snd ?R))) (new_users (repo w) recs ! i) (cards ! i)
             (length (users (repo w)) + i) (length (addresses (repo w)) + i)
             (length (companies (repo w)) + i) (length (credit_cards (repo w)) + i)"
    by simp_all
  then show ?thesis by blast
qed

text \<open>
  After a pass that returns, the session holds a user for every fetched record with an
  integer \<^verbatim>\<open>id\<close>.
\<close>

lemma linked_user_key:
  "linked s d card_data hu ha hc hcc \<Longrightarrow> dict_get d ''id'' = JInt n \<Longrightarrow>
     hu < length (users s) \<and> fst (users s ! hu) = JInt n"
  by (auto simp: linked_def dict_get_def split: option.splits)

lemma sync_users_then_all_present:
  assumes "fst (sync_users orm (JList (map JObj recs)) credit_card_client w) = Inr created"
    and "list_all integer_id recs"
  shows "list_all (\<lambda>d. get_user_by_id
                          (repo (snd (snd (sync_users orm (JList (map JObj recs))
                                             credit_card_client w))))
                          (dict_get d ''id'') \<noteq> None) recs"
proof -
  let ?s' = "repo (snd (snd (sync_users orm (JList (map JObj recs)) credit_card_client w)))"
  note facts = sync_users_success_facts[OF assms(1)]
  have "get_user_by_id ?s' (dict_get d ''id'') \<noteq> None" if d: "d \<in> set recs" for d
  proof -
    from assms(2) d have "integer_id d"
      by (simp add: list_all_iff)
    then obtain n where n: "dict_get d ''id'' = JInt n"
      by (cases "dict_get d ''id''") (simp_all add: integer_id_def)
    show ?thesis
    proof (cases "get_user_by_id (repo w) (dict_get d ''id'') = None")
      case False
      then have "get_user_by_id (repo w) (JInt n) \<noteq> None"
        unfolding n .
      from found_kept[OF conjunct1[OF facts] this] show ?thesis
        unfolding n .
    next
      case True
      with d have "d \<in> set (new_users (repo w) recs)" by (simp add: new_users_def)
      then obtain i where i: "i < length (new_users (repo w) recs)" "new_users (repo w) recs ! i = d"
        by (auto simp: in_set_conv_nth)
      with facts obtain cd ha hc hcc where
        "linked ?s' d cd (length (users (repo w)) + i) ha hc hcc" by blast
      from linked_user_key[OF this n] have "length (users (repo w)) + i < length (users ?s')"
        "fst (users ?s' ! (length (users (repo w)) + i)) = JInt n"
        by simp_all
      then show ?thesis unfolding n found_iff by blast
    qed
  qed
  then show ?thesis by (simp add: list_all_iff)
qed

subsection \<open>Records that the repository takes\<close>

lemma address_complete_of: "address_complete data \<Longrightarrow> \<exists>a. address_of data = Inr a"
  by (cases data) (auto simp: address_complete_def address_of_def split: option.splits json.splits)

lemma company_complete_of: "company_complete data \<Longrightarrow> \<exists>c. company_of data = Inr c"
  by (cases data) (auto simp: company_complete_def company_of_def)

lemma accepted_card_of: "accepted_card data \<Longrightarrow> \<exists>c. credit_card_of data = Inr c"
  by (cases data) (auto simp: accepted_card_def credit_card_of_def)

lemma process_user_accepted:
  assumes "\<forall>s. db_accepts orm s" and "accepted_user orm d" and "accepted_card card_data"
  shows "\<exists>h d' w'. process_user orm d card_data w = (Inr h, d', w')"
proof -
  from assms(2) obtain address_data company_data where
    ga: "getitem (JObj d) ''address'' = Inr address_data" and ca: "address_complete address_data"
    and gc: "getitem (JObj d) ''company'' = Inr company_data" and cc: "company_complete company_data"
    and keys: "list_all (takes_keyword orm) (map fst (pop_nested d))"
    by (auto simp: accepted_user_def filter_pop_nested split: option.splits)
  from address_complete_of[OF ca] obtain a where a: "address_of address_data = Inr a" ..
  from company_complete_of[OF cc] obtain c where c: "company_of company_data = Inr c" ..
  from accepted_card_of[OF assms(3)] obtain k where k: "credit_card_of card_data = Inr k" ..
  from assms(1) ga gc a c k keys show ?thesis
    unfolding process_user_def create_address_def create_company_def create_credit_card_def
      flush_changes_def create_user_def
    by (simp add: Let_def)
qed

lemma create_loop_accepted:
  "\<forall>s. db_accepts orm s \<Longrightarrow> list_all (accepted_user orm) ds \<Longrightarrow> length ds \<le> length cs \<Longrightarrow>
     list_all accepted_card (take (length ds) cs) \<Longrightarrow>
     \<exists>out ds' w'. create_loop orm ds cs created w = (Inr out, ds', w')"
proof (induction orm ds cs created w rule: create_loop.induct)
  case (1 orm card_iterator created_users w)
  then show ?case by simp
next
  case (2 orm d ds created_users w)
  then show ?case by simp
next
  case (3 orm d ds faker_card_data card_iterator created_users w)
  from "3.prems" have ok: "\<forall>s. db_accepts orm s" and d: "accepted_user orm d"
    and c: "accepted_card faker_card_data" and ds: "list_all (accepted_user orm) ds"
    and le: "length ds \<le> length card_iterator"
    and cs: "list_all accepted_card (take (length ds) card_iterator)"
    by simp_all
  from process_user_accepted[OF ok d c] obtain h d' w' where
    body: "process_user orm d faker_card_data w = (Inr h, d', w')"
    by blast
  from "3.IH"[OF body[symmetric] refl refl ok ds le cs] obtain out ds' w'' where
    "create_loop orm ds card_iterator (created_users @ [h]) w' = (Inr out, ds', w'')"
    by blast
  with body show ?case by simp
qed

lemma create_loop_take:
  "length ds \<le> length cs \<Longrightarrow>
     create_loop ok ds (take (length ds) cs) created w = create_loop ok ds cs created w"
proof (induction ok ds cs created w rule: create_loop.induct)
  case (1 orm card_iterator created_users w)
  then show ?case by simp
next
  case (2 orm d ds created_users w)
  then show ?case by simp
next
  case (3 orm d ds faker_card_data card_iterator created_users w)
  then show ?case
    by (auto split: prod.splits sum.splits)
qed

lemma sync_users_accepted:
  assumes "new_users (repo w) recs \<noteq> []"
    and "py_iter (credit_card_client (int (length (new_users (repo w) recs)))) = Inr cards"
    and "length (new_users (repo w) recs) \<le> length cards"
    and "\<forall>s. db_accepts orm s"
    and "list_all (accepted_user orm) (new_users (repo w) recs)"
    and "list_all accepted_card (take (length (new_users (repo w) recs)) cards)"
  shows "fst (sync_users orm (JList (map JObj recs)) credit_card_client w)
           = Inr [length (users (repo w)) ..< length (users (repo w)) + length (new_users (repo w) recs)]"
proof -
  let ?new = "new_users (repo w) recs"
  let ?w2 = "w\<lparr>calls := calls w @ Get_users # lookups recs @ [Get_credit_cards (int (length ?new))]\<rparr>"
  have R: "sync_users orm (JList (map JObj recs)) credit_card_client w
             = create_loop orm ?new cards [] ?w2"
    using assms(2,3) py_iter_len[OF assms(2)]
    by (simp add: sync_users_some_new[OF assms(1)] Let_def)
  from create_loop_accepted[OF assms(4,5,3,6), of "[]" ?w2] obtain out ds' w' where
    loop: "create_loop orm ?new cards [] ?w2 = (Inr out, ds', w')"
    by blast
  from create_loop_success[OF loop] show ?thesis unfolding R loop by simp
qed

subsection \<open>The records that a pass leaves\<close>

lemma process_user_records:
  "process_user orm d card_data w = (r, d', w') \<Longrightarrow>
     \<exists>xs. calls w' = calls w @ xs \<and>
       ((d' = pop_nested d \<and> filter is_create_user xs = [Create_user]) \<or>
        (d' = d \<and> filter is_create_user xs = [] \<and> isl r))"
  unfolding process_user_def create_user_def
  by (auto simp: Let_def split: sum.splits prod.splits if_splits)

lemma create_loop_records:
  "create_loop orm ds cs created w = (r, ds', w') \<Longrightarrow>
     \<exists>xs. calls w' = calls w @ xs \<and>
       length (filter is_create_user xs) \<le> length ds \<and>
       ds' = map pop_nested (take (length (filter is_create_user xs)) ds)
               @ drop (length (filter is_create_user xs)) ds \<and>
       (\<not> isl r \<longrightarrow> length (filter is_create_user xs) = length ds)"
proof (induction orm ds cs created w arbitrary: r ds' w' rule: create_loop.induct)
  case (1 orm card_iterator created_users w)
  then show ?case by simp
next
  case (2 orm d ds created_users w)
  then show ?case by auto
next
  case (3 orm d ds faker_card_data card_iterator created_users w)
  obtain r1 d1 w1 where body: "process_user orm d faker_card_data w = (r1, d1, w1)"
    by (cases "process_user orm d faker_card_data w") auto
  from process_user_records[OF body] obtain xs1 where
    x1: "calls w1 = calls w @ xs1"
    and alt: "(d1 = pop_nested d \<and> filter is_create_user xs1 = [Create_user]) \<or>
              (d1 = d \<and> filter is_create_user xs1 = [] \<and> isl r1)"
    by blast
  show ?case
  proof (cases r1)
    case (Inl e)
    with "3.prems" body have res: "r = Inl e" "ds' = d1 # ds" "w' = w1" by simp_all
    from alt res x1 show ?thesis by auto
  next
    case (Inr user)
    with alt have d1: "d1 = pop_nested d" and c1: "filter is_create_user xs1 = [Create_user]"
      by auto
    obtain r2 ds2 w2 where
      rest: "create_loop orm ds card_iterator (created_users @ [user]) w1 = (r2, ds2, w2)"
      by (cases "create_loop orm ds card_iterator (created_users @ [user]) w1") auto
    from "3.prems" body Inr rest have res: "r = r2" "ds' = d1 # ds2" "w' = w2" by simp_all
    from "3.IH"[OF body[symmetric] _ _ rest] Inr obtain xs2 where
      x2: "calls w2 = calls w1 @ xs2"
      and k2: "length (filter is_create_user xs2) \<le> length ds"
      and ds2: "ds2 = map pop_nested (take (length (filter is_create_user xs2)) ds)
                        @ drop (length (filter is_create_user xs2)) ds"
      and all2: "\<not> isl r2 \<longrightarrow> length (filter is_create_user xs2) = length ds"
      by auto
    from x1 x2 res have "calls w' = calls w @ (xs1 @ xs2)" by simp
    moreover from c1 have "length (filter is_create_user (xs1 @ xs2))
                             = Suc (length (filter is_create_user xs2))" by simp
    ultimately show ?thesis using k2 ds2 all2 res d1
      by (intro exI[of _ "xs1 @ xs2"]) simp
  qed
qed

lemma sync_users_records:
  "fst (snd (sync_users orm (JList (map JObj recs)) credit_card_client w))
     = map pop_nested
         (take (length (filter is_create_user
                  (calls_since w (snd (snd (sync_users orm (JList (map JObj recs))
                                              credit_card_client w))))))
            (new_users (repo w) recs))
       @ drop (length (filter is_create_user
                  (calls_since w (snd (snd (sync_users orm (JList (map JObj recs))
                                              credit_card_client w))))))
            (new_users (repo w) recs)
   \<and> (\<not> isl (fst (sync_users orm (JList (map JObj recs)) credit_card_client w)) \<longrightarrow>
        fst (snd (sync_users orm (JList (map JObj recs)) credit_card_client w))
          = map pop_nested (new_users (repo w) recs))"
proof (cases "new_users (repo w) recs = []")
  case True
  then show ?thesis by (simp add: sync_users_no_new)
next
  case False
  let ?new = "new_users (repo w) recs"
  let ?K = "int (length ?new)"
  let ?pre = "Get_users # lookups recs @ [Get_credit_cards ?K]"
  let ?w2 = "w\<lparr>calls := calls w @ ?pre\<rparr>"
  let ?R = "sync_users orm (JList (map JObj recs)) credit_card_client w"
  have pre: "filter is_create_user ?pre = []" by (simp add: lookups_def filter_map comp_def)
  have stop: "fst (snd ?R) = map pop_nested (take (length (filter is_create_user (calls_since w (snd (snd ?R))))) ?new)
                 @ drop (length (filter is_create_user (calls_since w (snd (snd ?R))))) ?new
              \<and> (\<not> isl (fst ?R) \<longrightarrow> fst (snd ?R) = map pop_nested ?new)"
    if "?R = (Inl e, ?new, ?w2)" for e
    using that pre by (simp add: calls_since_def)
  have loop: "fst (snd ?R) = map pop_nested (take (length (filter is_create_user (calls_since w (snd (snd ?R))))) ?new)
                 @ drop (length (filter is_create_user (calls_since w (snd (snd ?R))))) ?new
              \<and> (\<not> isl (fst ?R) \<longrightarrow> fst (snd ?R) = map pop_nested ?new)"
    if R: "?R = create_loop orm ?new cs [] ?w2" for cs
  proof -
    obtain r ds' w' where res: "create_loop orm ?new cs [] ?w2 = (r, ds', w')"
      by (cases "create_loop orm ?new cs [] ?w2") auto
    from create_loop_records[OF res] obtain xs where
      xs: "calls w' = calls ?w2 @ xs"
      and ds': "ds' = map pop_nested (take (length (filter is_create_user xs)) ?new)
                        @ drop (length (filter is_create_user xs)) ?new"
      and all: "\<not> isl r \<longrightarrow> length (filter is_create_user xs) = length ?new"
      by blast
    from xs have "calls_since w w' = ?pre @ xs"
      by (simp add: calls_since_def)
    with pre have "filter is_create_user (calls_since w w') = filter is_create_user xs"
      by simp
    with ds' all show ?thesis unfolding R res by auto
  qed
  have "(\<exists>e. ?R = (Inl e, ?new, ?w2)) \<or> (\<exists>cs. ?R = create_loop orm ?new cs [] ?w2)"
    unfolding sync_users_some_new[OF False] Let_def
    by (auto split: sum.splits)
  then show ?thesis using stop loop by blast
qed

subsection \<open>The test data\<close>

lemma accept_all_always [simp]: "\<forall>s. db_accepts accept_all s"
  by (simp add: accept_all_def)

lemma fresh_world_simps [simp]: "repo fresh_world = empty_session" "calls fresh_world = []"
  by (simp_all add: fresh_world_def)

lemma new_users_empty_session [simp]: "new_users empty_session recs = recs"
  by (simp add: new_users_def get_user_by_id_def empty_session_def split: json.splits)

lemma empty_session_lengths [simp]:
  "length (users empty_session) = 0" "length (addresses empty_session) = 0"
  "length (companies empty_session) = 0" "length (credit_cards empty_session) = 0"
  by (simp_all add: empty_session_def)

lemma takes_columns:
  "takes_keyword accept_all ''id''" "takes_keyword accept_all ''name''"
  "takes_keyword accept_all ''username''" "takes_keyword accept_all ''email''"
  "takes_keyword accept_all ''phone''" "takes_keyword accept_all ''website''"
  by (simp_all add: takes_keyword_def explicit_keywords_def user_columns_def)

lemma accepted_mock_user_data: "accepted_user accept_all mock_user_data"
  by (simp add: accepted_user_def mock_user_data_def address_complete_def company_complete_def
      takes_columns)

lemma accepted_user_data_2: "accepted_user accept_all user_data_2"
  by (simp add: accepted_user_def user_data_2_def mock_user_data_def address_complete_def
      company_complete_def takes_columns)

lemma accepted_mock_credit_card: "accepted_card mock_credit_card"
  by (simp add: accepted_card_def mock_credit_card_def)

lemma accepted_mock_credit_card_2: "accepted_card mock_credit_card_2"
  by (simp add: accepted_card_def mock_credit_card_2_def)

lemma mock_faker_client_eq: "mock_faker_client = (\<lambda>q. JList [mock_credit_card])"
  by (rule ext) (simp add: mock_faker_client_def)

lemma first_pass:
  "fst (sync_users accept_all (JList (map JObj [mock_user_data])) mock_faker_client fresh_world)
     = Inr [0]"
proof -
  have "fst (sync_users accept_all (JList (map JObj [mock_user_data])) mock_faker_client fresh_world)
          = Inr [length (users (repo fresh_world)) ..<
                 length (users (repo fresh_world)) +
                 length (new_users (repo fresh_world) [mock_user_data])]"
    by (rule sync_users_accepted[where cards = "[mock_credit_card]"])
      (simp_all add: mock_faker_client_def accepted_mock_user_data accepted_mock_credit_card)
  then show ?thesis by simp
qed

section \<open>Properties of \<open>sync_users\<close>\<close>

text \<open>
  C1: when there are new users and the credit card client returns fewer records than
  there are new users, \<^verbatim>\<open>sync_users\<close> raises the exception for insufficient credit card
  data; the calls of the pass are \<^verbatim>\<open>get_users\<close>, one \<^verbatim>\<open>get_user_by_id\<close> for each fetched
  record and one \<^verbatim>\<open>get_credit_cards\<close>, so no \<^verbatim>\<open>create_*\<close> and no \<^verbatim>\<open>flush_changes\<close>
  is called, and the session is the one the pass started with.
\<close>

theorem sync_users_insufficient_cards:
  assumes "new_users (repo w) recs \<noteq> []"
    and "py_len (credit_card_client (int (length (new_users (repo w) recs)))) = Inr n"
    and "n < length (new_users (repo w) recs)"
  shows "sync_users orm (JList (map JObj recs)) credit_card_client w =
           (Inl insufficient, new_users (repo w) recs,
            w\<lparr>calls := calls w @ Get_users # lookups recs @
                         [Get_credit_cards (int (length (new_users (repo w) recs)))]\<rparr>)
         \<and> repo (snd (snd (sync_users orm (JList (map JObj recs)) credit_card_client w))) = repo w
         \<and> filter is_write
             (calls (snd (snd (sync_users orm (JList (map JObj recs)) credit_card_client w))))
           = filter is_write (calls w)"
  using assms by (simp add: sync_users_some_new Let_def)

text \<open>
  As in \<^verbatim>\<open>test_sync_users_insufficient_cards\<close>, with two new users and one card.
\<close>

theorem sync_users_insufficient_cards_witness:
  "new_users (repo fresh_world) [mock_user_data, user_data_2] \<noteq> []
   \<and> py_len (mock_faker_client 2) = Inr 1
   \<and> fst (sync_users accept_all (JList (map JObj [mock_user_data, user_data_2])) mock_faker_client
            fresh_world)
       = Inl insufficient
   \<and> repo (snd (snd (sync_users accept_all (JList (map JObj [mock_user_data, user_data_2]))
                        mock_faker_client fresh_world)))
       = empty_session
   \<and> filter is_write
       (calls (snd (snd (sync_users accept_all (JList (map JObj [mock_user_data, user_data_2]))
                           mock_faker_client fresh_world))))
       = []"
proof -
  have h1: "new_users (repo fresh_world) [mock_user_data, user_data_2] \<noteq> []"
    by simp
  have h2: "py_len (mock_faker_client
                      (int (length (new_users (repo fresh_world) [mock_user_data, user_data_2]))))
              = Inr 1"
    by (simp add: mock_faker_client_def)
  have h3: "1 < length (new_users (repo fresh_world) [mock_user_data, user_data_2])"
    by simp
  have h2': "py_len (mock_faker_client 2) = Inr 1"
    by (simp add: mock_faker_client_def)
  from sync_users_insufficient_cards[where w = fresh_world
      and recs = "[mock_user_data, user_data_2]" and credit_card_client = mock_faker_client
      and n = 1 and orm = accept_all, OF h1 h2 h3] h1 h2'
  show ?thesis by simp
qed



text \<open>
  C3: in a pass that returns, the created users are the next positions of the session's
  users, one for each new user and in the order of the fetch.  The \<open>i\<close>-th of them has
  the entries of the \<open>i\<close>-th new user as its columns; its \<^verbatim>\<open>credit_card_id\<close> is the primary
  key of the \<open>i\<close>-th credit card added by the pass, whose columns are the fields of the
  \<open>i\<close>-th record of the credit card client and whose key no other credit card has;
  likewise for the address and the company built from the user's own nested objects.
\<close>

theorem sync_users_positional_pairing:
  assumes "fst (sync_users orm (JList (map JObj recs)) credit_card_client w) = Inr created"
    and "py_iter (credit_card_client (int (length (new_users (repo w) recs)))) = Inr cards"
  shows "created = [length (users (repo w)) ..< length (users (repo w)) + length (new_users (repo w) recs)]
         \<and> (\<forall>i<length (new_users (repo w) recs).
               linked (repo (snd (snd (sync_users orm (JList (map JObj recs)) credit_card_client w))))
                 (new_users (repo w) recs ! i) (cards ! i) (created ! i)
                 (length (addresses (repo w)) + i) (length (companies (repo w)) + i)
                 (length (credit_cards (repo w)) + i))"
proof (cases "new_users (repo w) recs = []")
  case True
  with assms(1) show ?thesis by (simp add: sync_users_no_new)
next
  case False
  let ?R = "sync_users orm (JList (map JObj recs)) credit_card_client w"
  from assms(1) have "?R = (Inr created, fst (snd ?R), snd (snd ?R))"
    by (metis prod.collapse)
  from sync_users_success[OF this False] assms(2) have
    loop: "create_loop orm (new_users (repo w) recs) cards []
             (w\<lparr>calls := calls w @ Get_users # lookups recs @
                          [Get_credit_cards (int (length (new_users (repo w) recs)))]\<rparr>)
           = (Inr created, fst (snd ?R), snd (snd ?R))"
    by auto
  from create_loop_success[OF loop] show ?thesis by simp
qed

text \<open>
  Two new users and two different cards: the first user has the first card, the second
  user the second.
\<close>

theorem sync_users_positional_pairing_witness:
  "fst (sync_users accept_all (JList (map JObj [mock_user_data, user_data_2])) two_cards_client
          fresh_world) = Inr [0, 1]
   \<and> py_iter (two_cards_client 2) = Inr [mock_credit_card, mock_credit_card_2]
   \<and> linked (repo (snd (snd (sync_users accept_all (JList (map JObj [mock_user_data, user_data_2]))
                                two_cards_client fresh_world))))
        mock_user_data mock_credit_card 0 0 0 0
   \<and> linked (repo (snd (snd (sync_users accept_all (JList (map JObj [mock_user_data, user_data_2]))
                                two_cards_client fresh_world))))
        user_data_2 mock_credit_card_2 1 1 1 1
   \<and> credit_card_id
        (snd (users (repo (snd (snd (sync_users accept_all
                (JList (map JObj [mock_user_data, user_data_2])) two_cards_client fresh_world)))) ! 1))
       = fst (credit_cards (repo (snd (snd (sync_users accept_all
                (JList (map JObj [mock_user_data, user_data_2])) two_cards_client fresh_world)))) ! 1)
   \<and> number
        (snd (credit_cards (repo (snd (snd (sync_users accept_all
                (JList (map JObj [mock_user_data, user_data_2])) two_cards_client fresh_world)))) ! 1))
       = JStr ''5555666677778888''
   \<and> username
        (snd (users (repo (snd (snd (sync_users accept_all
                (JList (map JObj [mock_user_data, user_data_2])) two_cards_client fresh_world)))) ! 1))
       = JStr ''t2''"
proof -
  let ?R = "sync_users accept_all (JList (map JObj [mock_user_data, user_data_2])) two_cards_client
              fresh_world"
  have h2: "py_iter (two_cards_client
                       (int (length (new_users (repo fresh_world) [mock_user_data, user_data_2]))))
              = Inr [mock_credit_card, mock_credit_card_2]"
    by (simp add: two_cards_client_def)
  have h2': "py_iter (two_cards_client 2) = Inr [mock_credit_card, mock_credit_card_2]"
    by (simp add: two_cards_client_def)
  have "fst ?R = Inr [length (users (repo fresh_world)) ..<
                      length (users (repo fresh_world)) +
                      length (new_users (repo fresh_world) [mock_user_data, user_data_2])]"
    by (rule sync_users_accepted[where cards = "[mock_credit_card, mock_credit_card_2]"])
      (simp_all add: two_cards_client_def accepted_mock_user_data accepted_user_data_2
        accepted_mock_credit_card accepted_mock_credit_card_2)
  then have h1: "fst ?R = Inr [0, 1]"
    by (simp add: upt_conv_Cons)
  from sync_users_positional_pairing[where w = fresh_world
      and recs = "[mock_user_data, user_data_2]" and credit_card_client = two_cards_client
      and orm = accept_all and created = "[0, 1]"
      and cards = "[mock_credit_card, mock_credit_card_2]", OF h1 h2]
  have all: "\<forall>i<2. linked (repo (snd (snd ?R))) ([mock_user_data, user_data_2] ! i)
               ([mock_credit_card, mock_credit_card_2] ! i) ([0, 1] ! i) i i i"
    by simp
  have "(0::nat) < 2" "(1::nat) < 2" by simp_all
  with all have "linked (repo (snd (snd ?R))) ([mock_user_data, user_data_2] ! 0)
               ([mock_credit_card, mock_credit_card_2] ! 0) ([0, 1] ! 0) 0 0 0"
    and "linked (repo (snd (snd ?R))) ([mock_user_data, user_data_2] ! 1)
               ([mock_credit_card, mock_credit_card_2] ! 1) ([0, 1] ! 1) 1 1 1"
    by blast+
  then have l0: "linked (repo (snd (snd ?R))) mock_user_data mock_credit_card 0 0 0 0"
    and l1: "linked (repo (snd (snd ?R))) user_data_2 mock_credit_card_2 1 1 1 1"
    by simp_all
  from l1 have fk: "credit_card_id (snd (users (repo (snd (snd ?R))) ! 1))
                      = fst (credit_cards (repo (snd (snd ?R))) ! 1)"
    and card: "card_built mock_credit_card_2 (snd (credit_cards (repo (snd (snd ?R))) ! 1))"
    and name: "holds_value user_data_2 ''username'' (username (snd (users (repo (snd (snd ?R))) ! 1)))"
    by (simp_all add: linked_def user_built_def)
  from card have num: "number (snd (credit_cards (repo (snd (snd ?R))) ! 1)) = JStr ''5555666677778888''"
    by (simp add: card_built_def mock_credit_card_2_def)
  from name have un: "username (snd (users (repo (snd (snd ?R))) ! 1)) = JStr ''t2''"
    by (simp add: holds_value_def user_data_2_def mock_user_data_def)
  from h1 h2' l0 l1 fk num un show ?thesis by simp
qed

text \<open>
  C4: when the session holds a user for every fetched record, \<^verbatim>\<open>sync_users\<close> returns the
  empty list, leaves the session as it was and calls neither \<^verbatim>\<open>get_credit_cards\<close> nor any
  writing operation of the repository.
\<close>

theorem sync_users_all_present:
  assumes "list_all (\<lambda>d. get_user_by_id (repo w) (dict_get d ''id'') \<noteq> None) recs"
  shows "sync_users orm (JList (map JObj recs)) credit_card_client w =
           (Inr [], [], w\<lparr>calls := calls w @ Get_users # lookups recs\<rparr>)
         \<and> filter is_card_call
             (calls (snd (snd (sync_users orm (JList (map JObj recs)) credit_card_client w))))
           = filter is_card_call (calls w)
         \<and> filter is_write
             (calls (snd (snd (sync_users orm (JList (map JObj recs)) credit_card_client w))))
           = filter is_write (calls w)"
proof -
  from assms have "new_users (repo w) recs = []"
    by (induction recs) (auto simp: new_users_def)
  then show ?thesis by (simp add: sync_users_no_new)
qed

text \<open>
  A second pass over the directory of the tests, right after the first one.
\<close>

theorem sync_users_all_present_witness:
  "list_all (\<lambda>d. get_user_by_id (repo stored_world) (dict_get d ''id'') \<noteq> None) [mock_user_data]
   \<and> fst (sync_users accept_all (JList (map JObj [mock_user_data])) mock_faker_client stored_world)
       = Inr []
   \<and> repo (snd (snd (sync_users accept_all (JList (map JObj [mock_user_data])) mock_faker_client
                        stored_world)))
       = repo stored_world
   \<and> filter is_card_call
       (calls (snd (snd (sync_users accept_all (JList (map JObj [mock_user_data])) mock_faker_client
                           stored_world))))
       = filter is_card_call (calls stored_world)"
proof -
  have h: "list_all (\<lambda>d. get_user_by_id (repo stored_world) (dict_get d ''id'') \<noteq> None)
             [mock_user_data]"
    unfolding stored_world_def
    by (rule sync_users_then_all_present[OF first_pass])
      (simp add: integer_id_def mock_user_data_def dict_get_def)
  from sync_users_all_present[where w = stored_world and recs = "[mock_user_data]"
      and credit_card_client = mock_faker_client and orm = accept_all, OF h] h
  show ?thesis by simp
qed

text \<open>
  C5, as stated, fails: with one new user and a credit card client whose request fails, the
  pass raises the exception for insufficient credit card data.
\<close>

theorem sync_users_card_failure_counterexample:
  "fst (sync_users accept_all (get_users (Body (JList [JObj mock_user_data])))
          (get_credit_cards RequestFailed) fresh_world) = Inl insufficient"
  by code_simp

text \<open>
  C5, amended: a failed request of the directory client makes \<^verbatim>\<open>sync_users\<close> return the
  empty list, with no call besides \<^verbatim>\<open>get_users\<close>; a failed request of the credit card
  client, when there are new users, makes it raise the exception for insufficient credit
  card data, after the lookups and the one call of the client and with the session as it
  was.
\<close>

theorem sync_users_upstream_unavailable:
  "sync_users orm (get_users RequestFailed) credit_card_client w =
     (Inr [], [], w\<lparr>calls := calls w @ [Get_users]\<rparr>)
   \<and> (new_users (repo w) recs \<noteq> [] \<longrightarrow>
        sync_users orm (JList (map JObj recs)) (get_credit_cards RequestFailed) w =
          (Inl insufficient, new_users (repo w) recs,
           w\<lparr>calls := calls w @ Get_users # lookups recs @
                        [Get_credit_cards (int (length (new_users (repo w) recs)))]\<rparr>))"
proof -
  have "sync_users orm (get_users RequestFailed) credit_card_client w =
          (Inr [], [], w\<lparr>calls := calls w @ [Get_users]\<rparr>)"
    by (simp add: get_users_def sync_users_def called_def)
  moreover have "sync_users orm (JList (map JObj recs)) (get_credit_cards RequestFailed) w =
          (Inl insufficient, new_users (repo w) recs,
           w\<lparr>calls := calls w @ Get_users # lookups recs @
                        [Get_credit_cards (int (length (new_users (repo w) recs)))]\<rparr>)"
    if "new_users (repo w) recs \<noteq> []"
    using that by (simp add: sync_users_some_new Let_def get_credit_cards_def)
  ultimately show ?thesis by blast
qed

text \<open>
  One new user, for the failure of either client.
\<close>

theorem sync_users_upstream_unavailable_witness:
  "new_users (repo fresh_world) [mock_user_data] \<noteq> []
   \<and> fst (sync_users accept_all (JList (map JObj [mock_user_data])) (get_credit_cards RequestFailed)
            fresh_world) = Inl insufficient
   \<and> repo (snd (snd (sync_users accept_all (JList (map JObj [mock_user_data]))
                        (get_credit_cards RequestFailed) fresh_world))) = empty_session
   \<and> fst (sync_users accept_all (get_users RequestFailed) mock_faker_client fresh_world) = Inr []"
proof -
  have h: "new_users (repo fresh_world) [mock_user_data] \<noteq> []"
    by simp
  from sync_users_upstream_unavailable[where w = fresh_world and recs = "[mock_user_data]"
      and credit_card_client = mock_faker_client and orm = accept_all] h
  show ?thesis by simp
qed

text \<open>
  C9, as stated, fails: a pass that raises before the second loop, here for insufficient
  credit card data, leaves the records of the new users with \<^verbatim>\<open>address\<close> and
  \<^verbatim>\<open>company\<close>.
\<close>

theorem sync_users_aborted_records_counterexample:
  "fst (sync_users accept_all (JList (map JObj [mock_user_data, user_data_2])) mock_faker_client
          fresh_world) = Inl insufficient
   \<and> fst (snd (sync_users accept_all (JList (map JObj [mock_user_data, user_data_2]))
                  mock_faker_client fresh_world)) = [mock_user_data, user_data_2]
   \<and> map_of mock_user_data ''address'' \<noteq> None \<and> map_of user_data_2 ''company'' \<noteq> None"
proof -
  have "new_users (repo fresh_world) [mock_user_data, user_data_2] \<noteq> []"
    by simp
  from sync_users_some_new[OF this, of accept_all mock_faker_client]
  have "sync_users accept_all (JList (map JObj [mock_user_data, user_data_2])) mock_faker_client
          fresh_world
        = (Inl insufficient, [mock_user_data, user_data_2],
           fresh_world\<lparr>calls := calls fresh_world @ Get_users #
              lookups [mock_user_data, user_data_2] @ [Get_credit_cards 2]\<rparr>)"
    by (simp add: Let_def mock_faker_client_def)
  moreover have "map_of mock_user_data ''address'' \<noteq> None" "map_of user_data_2 ''company'' \<noteq> None"
    by (simp_all add: mock_user_data_def user_data_2_def)
  ultimately show ?thesis by simp
qed

text \<open>
  C9, amended: \<^verbatim>\<open>create_user\<close> leaves the caller's dictionary without the keys \<^verbatim>\<open>address\<close>,
  \<^verbatim>\<open>company\<close> and \<^verbatim>\<open>credit_card\<close> and with every other entry as it was, whether the
  constructor raises or not, and the user it adds has the entries of that dictionary as
  its columns.  After a pass, the records of the new users on which \<^verbatim>\<open>create_user\<close> was
  called, the first \<open>k\<close> of them for the \<open>k\<close> calls of \<^verbatim>\<open>create_user\<close> that the pass made,
  are left so and the others are as they were; after a pass that returns, all of them are
  left so.
\<close>

theorem create_user_pops_nested:
  "fst (snd (create_user orm s user_data a_id c_id cc_id))
     = filter (\<lambda>kv. fst kv \<notin> {''address'', ''company'', ''credit_card''}) user_data
   \<and> (\<not> isl (fst (create_user orm s user_data a_id c_id cc_id)) \<longrightarrow>
        butlast (users (snd (snd (create_user orm s user_data a_id c_id cc_id)))) = users s \<and>
        length (users (snd (snd (create_user orm s user_data a_id c_id cc_id))))
          = Suc (length (users s)) \<and>
        user_built user_data a_id c_id cc_id
          (snd (last (users (snd (snd (create_user orm s user_data a_id c_id cc_id)))))) \<and>
        holds_value user_data ''id''
          (fst (last (users (snd (snd (create_user orm s user_data a_id c_id cc_id)))))))
   \<and> fst (snd (sync_users orm (JList (map JObj recs)) credit_card_client w))
       = map (filter (\<lambda>kv. fst kv \<notin> {''address'', ''company'', ''credit_card''}))
           (take (length (filter is_create_user
                    (calls_since w (snd (snd (sync_users orm (JList (map JObj recs))
                                                credit_card_client w))))))
              (new_users (repo w) recs))
         @ drop (length (filter is_create_user
                    (calls_since w (snd (snd (sync_users orm (JList (map JObj recs))
                                                credit_card_client w))))))
              (new_users (repo w) recs)
   \<and> (\<not> isl (fst (sync_users orm (JList (map JObj recs)) credit_card_client w)) \<longrightarrow>
        fst (snd (sync_users orm (JList (map JObj recs)) credit_card_client w))
          = map (filter (\<lambda>kv. fst kv \<notin> {''address'', ''company'', ''credit_card''}))
              (new_users (repo w) recs))"
proof -
  let ?C = "create_user orm s user_data a_id c_id cc_id"
  have 1: "fst (snd ?C)
     = filter (\<lambda>kv. fst kv \<notin> {''address'', ''company'', ''credit_card''}) user_data"
    by (simp add: create_user_def Let_def filter_pop_nested)
  have 2: "butlast (users (snd (snd ?C))) = users s \<and>
           length (users (snd (snd ?C))) = Suc (length (users s)) \<and>
           user_built user_data a_id c_id cc_id (snd (last (users (snd (snd ?C))))) \<and>
           holds_value user_data ''id'' (fst (last (users (snd (snd ?C)))))"
    if "\<not> isl (fst ?C)"
    using that
    by (simp add: create_user_def Let_def user_built_def user_of_def pop_nested_value
        split: if_splits)
  have pop: "pop_nested = filter (\<lambda>kv. fst kv \<notin> {''address'', ''company'', ''credit_card''})"
    by (rule ext) (rule filter_pop_nested)
  from sync_users_records[of orm recs credit_card_client w] 1 2 show ?thesis
    unfolding pop by blast
qed

text \<open>
  The record of the tests loses \<^verbatim>\<open>address\<close> and \<^verbatim>\<open>company\<close>, in a call of
  \<^verbatim>\<open>create_user\<close> and in a pass that returns.
\<close>

theorem create_user_pops_nested_witness:
  "\<not> isl (fst (create_user accept_all empty_session mock_user_data (JInt 1) (JInt 1) (JInt 1)))
   \<and> map fst (fst (snd (create_user accept_all empty_session mock_user_data (JInt 1) (JInt 1) (JInt 1))))
       = [''id'', ''name'', ''username'', ''email'', ''phone'', ''website'']
   \<and> map fst mock_user_data
       = [''id'', ''name'', ''username'', ''email'', ''phone'', ''website'', ''address'', ''company'']
   \<and> name (snd (last (users (snd (snd (create_user accept_all empty_session mock_user_data
                                          (JInt 1) (JInt 1) (JInt 1)))))))
       = JStr ''Test User''
   \<and> \<not> isl (fst (sync_users accept_all (JList (map JObj [mock_user_data])) mock_faker_client
                   fresh_world))
   \<and> map (map fst)
       (fst (snd (sync_users accept_all (JList (map JObj [mock_user_data])) mock_faker_client
                    fresh_world)))
       = [[''id'', ''name'', ''username'', ''email'', ''phone'', ''website'']]"
proof -
  let ?R = "sync_users accept_all (JList (map JObj [mock_user_data])) mock_faker_client fresh_world"
  let ?C = "create_user accept_all empty_session mock_user_data (JInt 1) (JInt 1) (JInt 1)"
  have h1: "\<not> isl (fst ?C)"
    by (simp add: create_user_def pop_nested_def mock_user_data_def takes_columns Let_def)
  from first_pass have h2: "\<not> isl (fst ?R)"
    by simp
  have keys: "map fst mock_user_data
       = [''id'', ''name'', ''username'', ''email'', ''phone'', ''website'', ''address'', ''company'']"
    by (simp add: mock_user_data_def)
  have f: "map fst (filter (\<lambda>kv. fst kv \<notin> {''address'', ''company'', ''credit_card''}) mock_user_data)
             = [''id'', ''name'', ''username'', ''email'', ''phone'', ''website'']"
    by (simp add: mock_user_data_def)
  note pops = create_user_pops_nested[where orm = accept_all and s = empty_session
      and user_data = mock_user_data
      and a_id = "JInt 1" and c_id = "JInt 1" and cc_id = "JInt 1"
      and recs = "[mock_user_data]" and credit_card_client = mock_faker_client and w = fresh_world]
  from pops have "fst (snd ?C)
      = filter (\<lambda>kv. fst kv \<notin> {''address'', ''company'', ''credit_card''}) mock_user_data"
    by (rule conjunct1)
  with f have c1: "map fst (fst (snd ?C))
       = [''id'', ''name'', ''username'', ''email'', ''phone'', ''website'']"
    by (simp only:)
  from pops h1 have "user_built mock_user_data (JInt 1) (JInt 1) (JInt 1) (snd (last (users (snd (snd ?C)))))"
    by blast
  then have c3: "name (snd (last (users (snd (snd ?C))))) = JStr ''Test User''"
    by (simp add: user_built_def holds_value_def mock_user_data_def)
  from pops h2 have "fst (snd ?R)
      = map (filter (\<lambda>kv. fst kv \<notin> {''address'', ''company'', ''credit_card''}))
          (new_users (repo fresh_world) [mock_user_data])"
    by blast
  then have "fst (snd ?R)
      = [filter (\<lambda>kv. fst kv \<notin> {''address'', ''company'', ''credit_card''}) mock_user_data]"
    by (simp only: fresh_world_simps new_users_empty_session list.map)
  with f have c2: "map (map fst) (fst (snd ?R))
      = [[''id'', ''name'', ''username'', ''email'', ''phone'', ''website'']]"
    by (simp only: list.map)
  from h1 c1 keys c3 h2 c2 show ?thesis by (simp only: simp_thms)
qed

text \<open>
  C10: when the credit card client returns more records than there are new users, the
  pass is the pass that the first records alone would give: the surplus changes neither
  the result nor the session nor the calls.  When the database takes every write and the
  repository takes the new users and the first cards, the pass returns the created users
  and adds one credit card for each new user; the \<open>i\<close>-th added credit card has the type,
  number, expiration and owner of the \<open>i\<close>-th record, a primary key that no other credit
  card has, and the \<open>i\<close>-th created user refers to it.
\<close>

theorem sync_users_surplus_cards:
  assumes "new_users (repo w) recs \<noteq> []"
    and "py_iter (credit_card_client (int (length (new_users (repo w) recs)))) = Inr cards"
    and "length (new_users (repo w) recs) < length cards"
  shows "sync_users orm (JList (map JObj recs)) credit_card_client w
           = sync_users orm (JList (map JObj recs))
               (\<lambda>q. JList (take (length (new_users (repo w) recs)) cards)) w
         \<and> ((\<forall>s. db_accepts orm s) \<and> list_all (accepted_user orm) (new_users (repo w) recs) \<and>
            list_all accepted_card (take (length (new_users (repo w) recs)) cards) \<longrightarrow>
              fst (sync_users orm (JList (map JObj recs)) credit_card_client w)
                = Inr [length (users (repo w)) ..<
                        length (users (repo w)) + length (new_users (repo w) recs)]
              \<and> length (credit_cards
                   (repo (snd (snd (sync_users orm (JList (map JObj recs)) credit_card_client w)))))
                = length (credit_cards (repo w)) + length (new_users (repo w) recs)
              \<and> (\<forall>i<length (new_users (repo w) recs).
                    card_built (cards ! i)
                      (snd (credit_cards
                           (repo (snd (snd (sync_users orm (JList (map JObj recs))
                                              credit_card_client w))))
                           ! (length (credit_cards (repo w)) + i)))
                    \<and> unique_key
                        (credit_cards
                           (repo (snd (snd (sync_users orm (JList (map JObj recs))
                                              credit_card_client w)))))
                        (length (credit_cards (repo w)) + i)
                    \<and> credit_card_id
                        (snd (users
                           (repo (snd (snd (sync_users orm (JList (map JObj recs))
                                              credit_card_client w))))
                           ! (length (users (repo w)) + i)))
                      = fst (credit_cards
                           (repo (snd (snd (sync_users orm (JList (map JObj recs))
                                              credit_card_client w))))
                           ! (length (credit_cards (repo w)) + i))))"
proof -
  let ?new = "new_users (repo w) recs"
  let ?K = "int (length ?new)"
  let ?w2 = "w\<lparr>calls := calls w @ Get_users # lookups recs @ [Get_credit_cards ?K]\<rparr>"
  let ?R = "sync_users orm (JList (map JObj recs)) credit_card_client w"
  from assms(3) have lt: "length (take (length ?new) cards) = length ?new" by simp
  have R: "?R = create_loop orm ?new cards [] ?w2"
    using assms(2,3) py_iter_len[OF assms(2)]
    by (simp add: sync_users_some_new[OF assms(1)] Let_def)
  have R': "sync_users orm (JList (map JObj recs)) (\<lambda>q. JList (take (length ?new) cards)) w
              = create_loop orm ?new (take (length ?new) cards) [] ?w2"
    using lt by (simp add: sync_users_some_new[OF assms(1)] Let_def)
  from assms(3) have same: "?R = sync_users orm (JList (map JObj recs))
                                   (\<lambda>q. JList (take (length ?new) cards)) w"
    unfolding R R' by (simp add: create_loop_take)
  have good: "fst ?R = Inr [length (users (repo w)) ..< length (users (repo w)) + length ?new]
              \<and> length (credit_cards (repo (snd (snd ?R)))) = length (credit_cards (repo w)) + length ?new
              \<and> (\<forall>i<length ?new.
                    card_built (cards ! i)
                      (snd (credit_cards (repo (snd (snd ?R))) ! (length (credit_cards (repo w)) + i)))
                    \<and> unique_key (credit_cards (repo (snd (snd ?R))))
                        (length (credit_cards (repo w)) + i)
                    \<and> credit_card_id (snd (users (repo (snd (snd ?R))) ! (length (users (repo w)) + i)))
                      = fst (credit_cards (repo (snd (snd ?R))) ! (length (credit_cards (repo w)) + i)))"
    if ok: "\<forall>s. db_accepts orm s" and us: "list_all (accepted_user orm) ?new"
      and cs: "list_all accepted_card (take (length ?new) cards)"
  proof -
    from assms(3) have le: "length ?new \<le> length cards" by simp
    from create_loop_accepted[OF ok us le cs, of "[]" ?w2] obtain out ds' w' where
      loop: "create_loop orm ?new cards [] ?w2 = (Inr out, ds', w')"
      by blast
    from create_loop_success[OF loop] have
      out: "out = [length (users (repo w)) ..< length (users (repo w)) + length ?new]"
      and len: "length (credit_cards (repo w')) = length (credit_cards (repo w)) + length ?new"
      and links: "\<And>i. i < length ?new \<Longrightarrow>
              linked (repo w') (?new ! i) (cards ! i) (length (users (repo w)) + i)
                (length (addresses (repo w)) + i) (length (companies (repo w)) + i)
                (length (credit_cards (repo w)) + i)"
      by simp_all
    from links have "\<And>i. i < length ?new \<Longrightarrow>
       card_built (cards ! i) (snd (credit_cards (repo w') ! (length (credit_cards (repo w)) + i)))
       \<and> unique_key (credit_cards (repo w')) (length (credit_cards (repo w)) + i)
       \<and> credit_card_id (snd (users (repo w') ! (length (users (repo w)) + i)))
           = fst (credit_cards (repo w') ! (length (credit_cards (repo w)) + i))"
      by (simp add: linked_def user_built_def)
    with out len show ?thesis unfolding R loop by simp
  qed
  from same good show ?thesis by blast
qed

text \<open>
  One new user and two cards: the pass is the one with the first card alone, and the
  credit card it adds is the first card.
\<close>

theorem sync_users_surplus_cards_witness:
  "new_users (repo fresh_world) [mock_user_data] \<noteq> []
   \<and> py_iter (two_cards_client 1) = Inr [mock_credit_card, mock_credit_card_2]
   \<and> (\<forall>s. db_accepts accept_all s) \<and> accepted_user accept_all mock_user_data \<and> accepted_card mock_credit_card
   \<and> sync_users accept_all (JList (map JObj [mock_user_data])) two_cards_client fresh_world
       = sync_users accept_all (JList (map JObj [mock_user_data])) mock_faker_client fresh_world
   \<and> fst (sync_users accept_all (JList (map JObj [mock_user_data])) two_cards_client fresh_world)
       = Inr [0]
   \<and> length (credit_cards
        (repo (snd (snd (sync_users accept_all (JList (map JObj [mock_user_data])) two_cards_client
                           fresh_world))))) = 1
   \<and> number (snd (credit_cards
            (repo (snd (snd (sync_users accept_all (JList (map JObj [mock_user_data]))
                               two_cards_client fresh_world)))) ! 0))
       = JStr ''1111222233334444''
   \<and> credit_card_id (snd (users
            (repo (snd (snd (sync_users accept_all (JList (map JObj [mock_user_data]))
                               two_cards_client fresh_world)))) ! 0))
       = fst (credit_cards
            (repo (snd (snd (sync_users accept_all (JList (map JObj [mock_user_data]))
                               two_cards_client fresh_world)))) ! 0)"
proof -
  let ?R = "sync_users accept_all (JList (map JObj [mock_user_data])) two_cards_client fresh_world"
  have h1: "new_users (repo fresh_world) [mock_user_data] \<noteq> []"
    by simp
  have h2: "py_iter (two_cards_client (int (length (new_users (repo fresh_world) [mock_user_data]))))
              = Inr [mock_credit_card, mock_credit_card_2]"
    by (simp add: two_cards_client_def)
  have h2': "py_iter (two_cards_client 1) = Inr [mock_credit_card, mock_credit_card_2]"
    by (simp add: two_cards_client_def)
  have h3: "length (new_users (repo fresh_world) [mock_user_data])
              < length [mock_credit_card, mock_credit_card_2]"
    by simp
  note surplus = sync_users_surplus_cards[where w = fresh_world and recs = "[mock_user_data]"
      and credit_card_client = two_cards_client and orm = accept_all
      and cards = "[mock_credit_card, mock_credit_card_2]", OF h1 h2 h3]
  from surplus[THEN conjunct1]
  have same: "?R
       = sync_users accept_all (JList (map JObj [mock_user_data])) mock_faker_client fresh_world"
    by (simp add: mock_faker_client_eq)
  from surplus[THEN conjunct2] accepted_mock_user_data accepted_mock_credit_card
  have good: "fst ?R = Inr [0]
   \<and> length (credit_cards (repo (snd (snd ?R)))) = 1
   \<and> card_built mock_credit_card (snd (credit_cards (repo (snd (snd ?R))) ! 0))
   \<and> credit_card_id (snd (users (repo (snd (snd ?R))) ! 0))
       = fst (credit_cards (repo (snd (snd ?R))) ! 0)"
    by simp
  from good have "card_built mock_credit_card (snd (credit_cards (repo (snd (snd ?R))) ! 0))"
    by blast
  then have num: "number (snd (credit_cards (repo (snd (snd ?R))) ! 0)) = JStr ''1111222233334444''"
    by (simp add: card_built_def mock_credit_card_def)
  from h1 h2' accepted_mock_user_data accepted_mock_credit_card same good num
  show ?thesis by (simp only: accept_all_always simp_thms)
qed

end
